theory Spec2Isabelle
  imports Complex_Main "HOL-Library.Sublist" "HOL-Library.AList"
begin

section \<open>Text: Python \<open>str\<close> and the regular-expression character classes\<close>

text \<open>
  A Python string is modelled as a \<^typ>\<open>string\<close> whose characters are the code points
  below 256 (ASCII and Latin-1). The classes below are the ones Python's \<open>re\<close> module
  uses for \<open>str\<close> patterns on that range:
  \<^item> \<open>\d\<close> is the Unicode category Nd, which below 256 holds the ten ASCII digits only;
  \<^item> \<open>\s\<close> is \<open>str.isspace\<close>: code points 9 to 13, 28 to 32, 133 and 160;
  \<^item> \<open>\w\<close> is \<open>str.isalnum\<close> or the underscore.
  \<open>str.strip()\<close> removes the same characters as \<open>\s\<close> matches.
\<close>

definition is_digit :: "char \<Rightarrow> bool" where
  "is_digit c = (let n = (of_char c :: nat) in 48 \<le> n \<and> n \<le> 57)"

definition is_space :: "char \<Rightarrow> bool" where
  "is_space c = (let n = (of_char c :: nat) in
     (9 \<le> n \<and> n \<le> 13) \<or> (28 \<le> n \<and> n \<le> 32) \<or> n = 133 \<or> n = 160)"

definition is_alnum :: "char \<Rightarrow> bool" where
  "is_alnum c = (let n = (of_char c :: nat) in
     (48 \<le> n \<and> n \<le> 57) \<or> (65 \<le> n \<and> n \<le> 90) \<or> (97 \<le> n \<and> n \<le> 122)
     \<or> n = 170 \<or> n = 178 \<or> n = 179 \<or> n = 181 \<or> n = 185 \<or> n = 186
     \<or> (188 \<le> n \<and> n \<le> 190)
     \<or> (192 \<le> n \<and> n \<le> 214) \<or> (216 \<le> n \<and> n \<le> 246) \<or> 248 \<le> n)"

definition is_word :: "char \<Rightarrow> bool" where
  "is_word c = (is_alnum c \<or> c = CHR ''_'')"

text \<open>\<open>str.lower()\<close>: below 256 the upper-case letters are A to Z and the code points
  192 to 222 except 215; each maps to the code point 32 above it.\<close>

definition lower_char :: "char \<Rightarrow> char" where
  "lower_char c = (let n = (of_char c :: nat) in
     if (65 \<le> n \<and> n \<le> 90) \<or> (192 \<le> n \<and> n \<le> 222 \<and> n \<noteq> 215)
     then char_of (n + 32) else c)"

definition lower :: "string \<Rightarrow> string" where
  "lower s = map lower_char s"

definition strip :: "string \<Rightarrow> string" where
  "strip s = rev (dropWhile is_space (rev (dropWhile is_space s)))"

text \<open>\<open>re.sub(cls, repl, s)\<close> for a pattern that is one character class: every character
  of the class is a match of length one and is replaced by \<open>repl\<close>.\<close>

fun re_sub_class :: "(char \<Rightarrow> bool) \<Rightarrow> string \<Rightarrow> string \<Rightarrow> string" where
  "re_sub_class cls repl [] = []"
| "re_sub_class cls repl (c # cs) =
     (if cls c then repl @ re_sub_class cls repl cs else c # re_sub_class cls repl cs)"

text \<open>Line 80: \<open>re.sub(r'[^\w\s]', ' ', col).strip()\<close>.\<close>

definition sanitize :: "string \<Rightarrow> string" where
  "sanitize col = strip (re_sub_class (\<lambda>c. \<not> (is_word c \<or> is_space c)) '' '' col)"

text \<open>The substring test \<open>k in s\<close> of two strings.\<close>

fun starts_with :: "string \<Rightarrow> string \<Rightarrow> bool" where
  "starts_with [] s = True"
| "starts_with (k # ks) [] = False"
| "starts_with (k # ks) (c # cs) = (k = c \<and> starts_with ks cs)"

fun py_in :: "string \<Rightarrow> string \<Rightarrow> bool" where
  "py_in k [] = (k = [])"
| "py_in k (c # cs) = (starts_with k (c # cs) \<or> py_in k cs)"

text \<open>\<open>any(p(k) for k in ks)\<close>.\<close>

fun py_any :: "('a \<Rightarrow> bool) \<Rightarrow> 'a list \<Rightarrow> bool" where
  "py_any p [] = False"
| "py_any p (k # ks) = (p k \<or> py_any p ks)"

section \<open>Classifying a column by its title (lines 83 to 91)\<close>

definition money_keywords :: "string list" where
  "money_keywords = [''value'', ''amount'', ''revenue'', ''budget'', ''cost'', ''price'']"

definition exclude_keywords :: "string list" where
  "exclude_keywords =
     [''status'', ''stage'', ''date'', ''id'', ''code'', ''name'', ''probability'', ''sector'']"

definition is_money_col :: "string \<Rightarrow> bool" where
  "is_money_col col = (let col_lower = lower col in py_any (\<lambda>k. py_in k col_lower) money_keywords)"

definition is_excluded :: "string \<Rightarrow> bool" where
  "is_excluded col = (let col_lower = lower col in py_any (\<lambda>k. py_in k col_lower) exclude_keywords)"

definition numeric_col :: "string \<Rightarrow> bool" where
  "numeric_col col = (is_money_col col \<and> \<not> is_excluded col)"

section \<open>Decoded JSON and table cells\<close>

text \<open>The value \<open>response.json()\<close> returns. An object carries its items in insertion
  order; a number is its exact value.\<close>

datatype json =
    JNull
  | JBool bool
  | JNum rat
  | JStr string
  | JArr "json list"
  | JObj "(string \<times> json) list"

text \<open>A cell of a data frame: a Python object taken from the response, a number, or
  the missing value.\<close>

datatype cell = Obj json | Num rat | NaN

section \<open>Numeric coercion of a money column (lines 92 to 94)\<close>

text \<open>
  \<open>astype(str)\<close> leaves a string as it is, turns \<open>None\<close> into the text \<open>None\<close> and the
  missing value into \<open>nan\<close>. For every other object it is Python's \<open>str()\<close>, which is
  not part of the repository and is the parameter \<open>py_str\<close>.
\<close>

definition astype_str :: "(cell \<Rightarrow> string) \<Rightarrow> cell \<Rightarrow> string" where
  "astype_str py_str v =
     (case v of Obj (JStr s) \<Rightarrow> s | Obj JNull \<Rightarrow> ''None'' | NaN \<Rightarrow> ''nan'' | _ \<Rightarrow> py_str v)"

text \<open>Line 92: \<open>.str.replace(r'[^\d.]', '', regex=True)\<close>.\<close>

definition strip_non_numeric :: "string \<Rightarrow> string" where
  "strip_non_numeric s = re_sub_class (\<lambda>c. \<not> (is_digit c \<or> c = CHR ''.'')) [] s"

text \<open>
  \<open>pd.to_numeric(_, errors='coerce')\<close> on the text that line 92 leaves, which holds digits
  and points only: digits, then optionally a point and digits, with at least one digit
  in all, up to the end of the text. Anything else is a parse failure (the missing
  value, \<open>None\<close> here). The number read is the exact decimal value passed through \<open>f64\<close>,
  the conversion of pandas' parser to the 64-bit float (or integer) it stores; that
  conversion is not part of the repository and is a parameter. A numeral too large for
  a float ends as 0 after line 94 whether the parser fails or returns infinity, which
  any \<open>f64\<close> value above the ceiling reproduces.
\<close>

definition digit_val :: "char \<Rightarrow> nat" where
  "digit_val c = of_char c - 48"

definition decimal_value :: "string \<Rightarrow> nat" where
  "decimal_value ds = foldl (\<lambda>a c. 10 * a + digit_val c) 0 ds"

definition parse_decimal :: "string \<Rightarrow> rat option" where
  "parse_decimal s =
     (let ip = takeWhile is_digit s; rest = dropWhile is_digit s in
      case rest of
        [] \<Rightarrow> if ip = [] then None else Some (of_nat (decimal_value ip))
      | c # fp \<Rightarrow>
          if c = CHR ''.'' \<and> list_all is_digit fp \<and> (ip \<noteq> [] \<or> fp \<noteq> [])
          then Some (of_nat (decimal_value (ip @ fp)) / 10 ^ length fp)
          else None)"

definition to_numeric :: "(rat \<Rightarrow> rat) \<Rightarrow> string \<Rightarrow> rat option" where
  "to_numeric f64 s = map_option f64 (parse_decimal s)"

text \<open>Line 93, \<open>.fillna(0)\<close>, and line 94, \<open>df.loc[df[col] > 1_000_000_000_000, col] = 0\<close>.\<close>

definition fillna0 :: "rat option \<Rightarrow> rat" where
  "fillna0 v = (case v of None \<Rightarrow> 0 | Some x \<Rightarrow> x)"

definition zero_above_ceiling :: "rat \<Rightarrow> rat" where
  "zero_above_ceiling x = (if x > 1000000000000 then 0 else x)"

text \<open>The three assignments to the column, each over the whole column.\<close>

definition coerce_column :: "(rat \<Rightarrow> rat) \<Rightarrow> (cell \<Rightarrow> string) \<Rightarrow> cell list \<Rightarrow> cell list" where
  "coerce_column f64 py_str col =
     (let col1 = map (\<lambda>v. strip_non_numeric (astype_str py_str v)) col;
          col2 = map (\<lambda>s. fillna0 (to_numeric f64 s)) col1;
          col3 = map zero_above_ceiling col2
      in map Num col3)"

text \<open>The lower-case ASCII letters, of which every keyword is made.\<close>

definition lower_letter :: "char \<Rightarrow> bool" where
  "lower_letter l = (97 \<le> (of_char l :: nat) \<and> (of_char l :: nat) \<le> 122)"

section \<open>Exceptions\<close>

text \<open>
  An exception raised by code outside the repository (the HTTP transport, the
  language-model client, an executed snippet): whether it is an instance of
  \<open>Exception\<close>, and its \<open>str()\<close>. \<open>SystemExit\<close>, \<open>KeyboardInterrupt\<close> and
  \<open>GeneratorExit\<close> are exceptions that are not instances of \<open>Exception\<close>.
\<close>

datatype exc = Exc (is_Exception: bool) (str_of: string)

text \<open>What an operation of the code can raise: the built-in errors of subscripting,
  iterating and attribute access, or an exception from outside.\<close>

datatype py_error = KeyError | TypeError | IndexError | AttributeError | Raised exc

text \<open>What \<open>except Exception\<close> catches.\<close>

fun catchable :: "py_error \<Rightarrow> bool" where
  "catchable (Raised e) = is_Exception e"
| "catchable _ = True"

text \<open>Sequencing: the first error ends the evaluation.\<close>

definition bind_err :: "'err + 'x \<Rightarrow> ('x \<Rightarrow> 'err + 'y) \<Rightarrow> 'err + 'y" where
  "bind_err r f = (case r of Inl e \<Rightarrow> Inl e | Inr v \<Rightarrow> f v)"

section \<open>Python operations on decoded JSON\<close>

text \<open>\<open>x[k]\<close> for a string literal \<open>k\<close>: only a dict has string keys.\<close>

fun getitem :: "json \<Rightarrow> string \<Rightarrow> py_error + json" where
  "getitem (JObj kvs) k = (case map_of kvs k of None \<Rightarrow> Inl KeyError | Some v \<Rightarrow> Inr v)"
| "getitem _ k = Inl TypeError"

text \<open>\<open>x[0]\<close>: the first element of a list or string; a dict decoded from JSON has no
  key \<open>0\<close>.\<close>

fun getitem0 :: "json \<Rightarrow> py_error + json" where
  "getitem0 (JArr xs) = (case xs of [] \<Rightarrow> Inl IndexError | x # _ \<Rightarrow> Inr x)"
| "getitem0 (JStr s) = (case s of [] \<Rightarrow> Inl IndexError | c # _ \<Rightarrow> Inr (JStr [c]))"
| "getitem0 (JObj kvs) = Inl KeyError"
| "getitem0 _ = Inl TypeError"

text \<open>\<open>k in x\<close> for a string literal \<open>k\<close>: a key of a dict, an element of a list, a
  substring of a string.\<close>

fun contains :: "json \<Rightarrow> string \<Rightarrow> py_error + bool" where
  "contains (JObj kvs) k = Inr (k \<in> set (map fst kvs))"
| "contains (JArr xs) k = Inr (JStr k \<in> set xs)"
| "contains (JStr s) k = Inr (py_in k s)"
| "contains _ k = Inl TypeError"

text \<open>\<open>for c in x\<close>: the elements of a list, the keys of a dict, the characters of a
  string.\<close>

fun iter :: "json \<Rightarrow> py_error + json list" where
  "iter (JArr xs) = Inr xs"
| "iter (JObj kvs) = Inr (map (\<lambda>kv. JStr (fst kv)) kvs)"
| "iter (JStr s) = Inr (map (\<lambda>c. JStr [c]) s)"
| "iter _ = Inl TypeError"

text \<open>\<open>x.lower()\<close>, an attribute of strings only; the result comes with the string.\<close>

fun str_lower :: "json \<Rightarrow> py_error + (string \<times> string)" where
  "str_lower (JStr s) = Inr (s, lower s)"
| "str_lower _ = Inl AttributeError"

text \<open>Use as a dict key: lists and dicts are unhashable; \<open>True\<close> and \<open>False\<close> are the keys
  1 and 0.\<close>

fun hash_key :: "json \<Rightarrow> py_error + json" where
  "hash_key (JArr xs) = Inl TypeError"
| "hash_key (JObj kvs) = Inl TypeError"
| "hash_key (JBool b) = Inr (JNum (if b then 1 else 0))"
| "hash_key v = Inr v"

section \<open>The record flattener (lines 66 to 75)\<close>

text \<open>A Python dict built by the code is an association list in insertion order;
  \<open>d[k] = v\<close> is \<^const>\<open>AList.update\<close>.\<close>

text \<open>Line 67, the dict comprehension: for each column the condition first, then the key,
  then the value, then the insertion.\<close>

fun build_col_map :: "json list \<Rightarrow> (json \<times> string) list \<Rightarrow> py_error + (json \<times> string) list" where
  "build_col_map [] col_map = Inr col_map"
| "build_col_map (c # cs) col_map =
     bind_err (getitem c ''title'') (\<lambda>t.
     bind_err (str_lower t) (\<lambda>(title, title_lower).
       if title_lower \<noteq> ''name'' then
         bind_err (getitem c ''id'') (\<lambda>i.
         bind_err (hash_key i) (\<lambda>k.
           build_col_map cs (AList.update k title col_map)))
       else build_col_map cs col_map))"

text \<open>Line 72, the dict comprehension over the item's column values.\<close>

fun build_item_vals :: "json list \<Rightarrow> (json \<times> json) list \<Rightarrow> py_error + (json \<times> json) list" where
  "build_item_vals [] item_vals = Inr item_vals"
| "build_item_vals (val # vals) item_vals =
     bind_err (getitem val ''id'') (\<lambda>i.
     bind_err (getitem val ''text'') (\<lambda>text.
     bind_err (hash_key i) (\<lambda>k.
       build_item_vals vals (AList.update k text item_vals))))"

text \<open>Lines 73 and 74: \<open>row_data[col_title] = item_vals.get(col_id, "")\<close> for every entry of
  the column map.\<close>

fun fill_row :: "(json \<times> json) list \<Rightarrow> (json \<times> string) list \<Rightarrow> (string \<times> json) list \<Rightarrow> (string \<times> json) list" where
  "fill_row item_vals [] row_data = row_data"
| "fill_row item_vals ((col_id, col_title) # rest) row_data =
     fill_row item_vals rest
       (AList.update col_title (case map_of item_vals col_id of None \<Rightarrow> JStr [] | Some v \<Rightarrow> v)
          row_data)"

text \<open>Lines 70 to 75, the loop over the items.\<close>

fun parse_items :: "(json \<times> string) list \<Rightarrow> json list \<Rightarrow> py_error + (string \<times> json) list list" where
  "parse_items col_map [] = Inr []"
| "parse_items col_map (item # items) =
     bind_err (getitem item ''name'') (\<lambda>name.
     bind_err (getitem item ''column_values'') (\<lambda>cvs.
     bind_err (iter cvs) (\<lambda>vals.
     bind_err (build_item_vals vals []) (\<lambda>item_vals.
     bind_err (parse_items col_map items) (\<lambda>parsed_rows.
       Inr (fill_row item_vals col_map [(''Item Name'', name)] # parsed_rows))))))"

definition flatten :: "json \<Rightarrow> py_error + (string \<times> json) list list" where
  "flatten board_data =
     bind_err (getitem board_data ''columns'') (\<lambda>columns.
     bind_err (iter columns) (\<lambda>cs.
     bind_err (build_col_map cs []) (\<lambda>col_map.
     bind_err (getitem board_data ''items_page'') (\<lambda>items_page.
     bind_err (getitem items_page ''items'') (\<lambda>items.
     bind_err (iter items) (\<lambda>its.
       parse_items col_map its))))))"

section \<open>Data frames\<close>

text \<open>A data frame: its number of rows and its columns in order, each a label with its
  cells. Labels may repeat.\<close>

record dataframe =
  nrows :: nat
  cols :: "(string \<times> cell list) list"

text \<open>\<open>pd.DataFrame()\<close>.\<close>

definition empty_frame :: dataframe where
  "empty_frame = \<lparr>nrows = 0, cols = []\<rparr>"

text \<open>\<open>pd.DataFrame(parsed_rows)\<close> for a list of dicts: one row per dict; the columns are
  the keys in the order they are first seen; a key a dict lacks gives the missing
  value. A value a dict has is stored as the object it is, \<open>None\<close> included: the column
  of objects that pandas builds before version 3. A pandas that infers a string column
  stores a \<open>None\<close> among strings as the missing value instead. The difference shows in
  a text column only: lines 92 to 94 turn both into 0 (\<open>coerce_column_null_text\<close>), and
  the pipeline reads no other column again.\<close>

fun first_seen :: "'a list \<Rightarrow> 'a list \<Rightarrow> 'a list" where
  "first_seen seen [] = seen"
| "first_seen seen (k # ks) = first_seen (if k \<in> set seen then seen else seen @ [k]) ks"

definition DataFrame :: "(string \<times> json) list list \<Rightarrow> dataframe" where
  "DataFrame recs =
     (let labels = first_seen [] (concat (map (map fst) recs)) in
      \<lparr>nrows = length recs,
       cols = map (\<lambda>l. (l, map (\<lambda>r. case map_of r l of None \<Rightarrow> NaN | Some v \<Rightarrow> Obj v) recs))
                labels\<rparr>)"

definition columns :: "dataframe \<Rightarrow> string list" where
  "columns df = map fst (cols df)"

text \<open>Line 80: \<open>df.columns = [re.sub(r'[^\w\s]', ' ', col).strip() for col in df.columns]\<close>.\<close>

definition sanitize_columns :: "dataframe \<Rightarrow> dataframe" where
  "sanitize_columns df = df\<lparr>cols := map (\<lambda>(l, vals). (sanitize l, vals)) (cols df)\<rparr>"

section \<open>The type conversion loop (lines 86 to 94)\<close>

text \<open>
  \<open>df[col]\<close> is a series when the label \<open>col\<close> occurs once. When it occurs more than
  once \<open>df[col]\<close> is a data frame, which has no \<open>.str\<close>, and line 92 raises
  \<open>AttributeError\<close>.
\<close>

definition set_column :: "string \<Rightarrow> (cell list \<Rightarrow> cell list) \<Rightarrow> dataframe \<Rightarrow> dataframe" where
  "set_column col f df =
     df\<lparr>cols := map (\<lambda>(l, vals). if l = col then (l, f vals) else (l, vals)) (cols df)\<rparr>"

fun coerce_loop :: "(rat \<Rightarrow> rat) \<Rightarrow> (cell \<Rightarrow> string) \<Rightarrow> string list \<Rightarrow> dataframe \<Rightarrow> py_error + dataframe" where
  "coerce_loop f64 py_str [] df = Inr df"
| "coerce_loop f64 py_str (col # rest) df =
     (if is_money_col col \<and> \<not> is_excluded col then
        (if col \<notin> set (columns df) then Inl KeyError
         else if 1 < count_list (columns df) col then Inl AttributeError
         else coerce_loop f64 py_str rest (set_column col (coerce_column f64 py_str) df))
      else coerce_loop f64 py_str rest df)"

section \<open>The normalization pipeline (lines 58 to 99)\<close>

text \<open>What the transport hands over: \<open>requests.post\<close> raised, \<open>response.json()\<close> raised, or
  the decoded body. The cache of line 35 returns what the function returned and is left
  out.\<close>

datatype upstream = PostRaises exc | JsonRaises exc | Body json

text \<open>The message shown to the user with \<open>st.error\<close>: the upstream error message, or the
  exception that was caught.\<close>

datatype report = MondayApiError json | FetchError py_error

text \<open>The body of the \<open>try\<close>.\<close>

definition fetch_body :: "(rat \<Rightarrow> rat) \<Rightarrow> (cell \<Rightarrow> string) \<Rightarrow> upstream \<Rightarrow> py_error + (report option \<times> dataframe)" where
  "fetch_body f64 py_str up =
     (case up of
        PostRaises e \<Rightarrow> Inl (Raised e)
      | JsonRaises e \<Rightarrow> Inl (Raised e)
      | Body data \<Rightarrow>
          bind_err (contains data ''errors'') (\<lambda>has_errors.
            if has_errors then
              bind_err (getitem data ''errors'') (\<lambda>errors.
              bind_err (getitem0 errors) (\<lambda>error0.
              bind_err (getitem error0 ''message'') (\<lambda>message.
                Inr (Some (MondayApiError message), empty_frame))))
            else
              bind_err (getitem data ''data'') (\<lambda>d.
              bind_err (getitem d ''boards'') (\<lambda>boards.
              bind_err (getitem0 boards) (\<lambda>board_data.
              bind_err (flatten board_data) (\<lambda>parsed_rows.
                let df = sanitize_columns (DataFrame parsed_rows) in
                bind_err (coerce_loop f64 py_str (columns df) df) (\<lambda>df'.
                  Inr (None, df'))))))))"

text \<open>The \<open>try\<close> with its handler: an instance of \<open>Exception\<close> is reported and the empty
  frame returned; any other exception leaves the function.\<close>

definition fetch_and_clean :: "(rat \<Rightarrow> rat) \<Rightarrow> (cell \<Rightarrow> string) \<Rightarrow> upstream \<Rightarrow> py_error + (report option \<times> dataframe)" where
  "fetch_and_clean f64 py_str up =
     (case fetch_body f64 py_str up of
        Inr r \<Rightarrow> Inr r
      | Inl e \<Rightarrow> if catchable e then Inr (Some (FetchError e), empty_frame) else Inl e)"

section \<open>Well-formed responses\<close>

text \<open>The shape of a response to the query of lines 44 to 56: a board with its columns
  (id and title) and its items (name and column values, each an id with a text).\<close>

definition column_json :: "string \<times> string \<Rightarrow> json" where
  "column_json c = JObj [(''id'', JStr (fst c)), (''title'', JStr (snd c))]"

definition value_json :: "string \<times> json \<Rightarrow> json" where
  "value_json v = JObj [(''id'', JStr (fst v)), (''text'', snd v)]"

definition item_json :: "string \<times> (string \<times> json) list \<Rightarrow> json" where
  "item_json it =
     JObj [(''name'', JStr (fst it)), (''column_values'', JArr (map value_json (snd it)))]"

definition board_json :: "(string \<times> string) list \<Rightarrow> (string \<times> (string \<times> json) list) list \<Rightarrow> json" where
  "board_json cs its =
     JObj [(''columns'', JArr (map column_json cs)),
           (''items_page'', JObj [(''items'', JArr (map item_json its))])]"

definition response_json :: "json \<Rightarrow> json" where
  "response_json board = JObj [(''data'', JObj [(''boards'', JArr [board])])]"

text \<open>The column descriptors that line 67 keeps: those whose lower-cased title is not
  \<open>name\<close>.\<close>

definition non_name :: "(string \<times> string) list \<Rightarrow> (string \<times> string) list" where
  "non_name cs = filter (\<lambda>c. lower (snd c) \<noteq> ''name'') cs"

text \<open>A cell that holds a number between 0 and the ceiling of line 94.\<close>

definition stored_in_range :: "cell \<Rightarrow> bool" where
  "stored_in_range c = (case c of Num x \<Rightarrow> 0 \<le> x \<and> x \<le> 1000000000000 | _ \<Rightarrow> False)"

section \<open>Stripping the code fence (lines 125 and 126)\<close>

text \<open>
  \<open>re.sub(r'^```python\s*|```$', '', raw_code, flags=re.MULTILINE)\<close>, scanning from the
  left. \<open>bol\<close> says whether the position is at the beginning of a line (the start of
  the text, or just after a newline), where \<open>^\<close> matches in multiline mode. At each
  position the first alternative is tried first: at the beginning of a line the nine
  characters of the opening marker and all whitespace after them. Otherwise the second:
  three backquotes with the end of the text or a newline after them, where \<open>$\<close>
  matches in multiline mode. Otherwise the character is kept. The characters are
  compared as they are: the call passes no \<open>re.IGNORECASE\<close>.
\<close>

function re_sub_fence :: "bool \<Rightarrow> string \<Rightarrow> string" where
  "re_sub_fence bol [] = []"
| "re_sub_fence bol (c # cs) =
     (if bol \<and> starts_with ''```python'' (c # cs) then
        re_sub_fence
          (takeWhile is_space (drop 9 (c # cs)) \<noteq> []
             \<and> last (takeWhile is_space (drop 9 (c # cs))) = CHR 0x0A)
          (dropWhile is_space (drop 9 (c # cs)))
      else if starts_with ''```'' (c # cs)
              \<and> (case drop 3 (c # cs) of [] \<Rightarrow> True | d # ds \<Rightarrow> d = CHR 0x0A) then
        re_sub_fence False (drop 3 (c # cs))
      else c # re_sub_fence (c = CHR 0x0A) cs)"
  by pat_completeness auto
termination
proof (relation "measure (\<lambda>(bol, s). length s)")
  show "wf (measure (\<lambda>(bol, s). length s))" by simp
next
  fix bol :: bool and c :: char and cs :: string
  have "length (dropWhile is_space (drop 8 cs)) \<le> length (drop 8 cs)"
    by (rule length_dropWhile_le)
  then show "((takeWhile is_space (drop 9 (c # cs)) \<noteq> []
             \<and> last (takeWhile is_space (drop 9 (c # cs))) = CHR 0x0A,
           dropWhile is_space (drop 9 (c # cs))), bol, c # cs)
      \<in> measure (\<lambda>(bol, s). length s)"
    by simp
next
  fix bol :: bool and c :: char and cs :: string
  show "((False, drop 3 (c # cs)), bol, c # cs) \<in> measure (\<lambda>(bol, s). length s)"
    by simp
next
  fix bol :: bool and c :: char and cs :: string
  show "((c = CHR 0x0A, cs), bol, c # cs) \<in> measure (\<lambda>(bol, s). length s)"
    by simp
qed

declare re_sub_fence.simps [simp del]

text \<open>Line 125 strips the completion text; line 126 removes the fence and strips again.\<close>

definition clean_code :: "string \<Rightarrow> string" where
  "clean_code content = (let raw_code = strip content in strip (re_sub_fence True raw_code))"

section \<open>The query engine (lines 102 to 146)\<close>

text \<open>An object in the namespace of the executed snippet: one of the two tables, the
  \<open>pd\<close> module, or any other object.\<close>

datatype pyobj = FrameObj dataframe | PandasModule | PyObj string

text \<open>The values the two prompts are built from; the text around them is fixed.\<close>

record code_prompt =
  cp_question :: string
  cp_deals_rows :: nat
  cp_deals_cols :: "string list"
  cp_wo_rows :: nat
  cp_wo_cols :: "string list"

record summary_prompt =
  sp_question :: string
  sp_result :: string

text \<open>Lines 103 to 117: the prompt holds the question and, of each table, the number of
  rows and the column titles.\<close>

definition code_prompt_of :: "string \<Rightarrow> dataframe \<Rightarrow> dataframe \<Rightarrow> code_prompt" where
  "code_prompt_of question deals_df wo_df =
     \<lparr>cp_question = question,
      cp_deals_rows = nrows deals_df, cp_deals_cols = columns deals_df,
      cp_wo_rows = nrows wo_df, cp_wo_cols = columns wo_df\<rparr>"

text \<open>Line 131: \<open>local_vars = {"deals_df": deals_df, "wo_df": wo_df, "pd": pd}\<close>.\<close>

definition initial_vars :: "dataframe \<Rightarrow> dataframe \<Rightarrow> (string \<rightharpoonup> pyobj)" where
  "initial_vars deals_df wo_df =
     [''deals_df'' \<mapsto> FrameObj deals_df, ''wo_df'' \<mapsto> FrameObj wo_df, ''pd'' \<mapsto> PandasModule]"

text \<open>The prefix of line 146. The warning sign and its variation selector (U+26A0,
  U+FE0F) lie above the code points of the model and stand here in UTF-8.\<close>

definition agent_error_prefix :: string where
  "agent_error_prefix =
     [CHR 0xE2, CHR 0x9A, CHR 0xA0, CHR 0xEF, CHR 0xB8, CHR 0x8F] @ '' Agent Logic Error: ''"

text \<open>
  The body of the \<open>try\<close>. What lies outside the repository is a parameter, each call
  either raising or returning:
  \<^item> \<open>llm_code\<close>: the completion call of line 120 with the reading of
    \<open>res.choices[0].message.content\<close>, which the client gives as a string or as \<open>None\<close>;
  \<^item> \<open>py_exec\<close>: \<open>exec(clean_code, {}, local_vars)\<close>, which leaves the namespace it
    was given, with the names the snippet bound;
  \<^item> \<open>py_format\<close>: the formatting of the result into the prompt of line 137;
  \<^item> \<open>llm_summary\<close>: the completion call of line 140 with the reading of
    \<open>explanation.choices[0].message.content\<close>, a string or \<open>None\<close>, which line 144
    returns as it is.
  Line 125 calls \<open>.strip()\<close> on the content of the first completion: on \<open>None\<close> this is
  an \<open>AttributeError\<close>. Line 133 reads the name \<open>result\<close> with the default
  \<open>No result returned\<close>. The display of the snippet (lines 128 and 129) belongs to the
  user interface and is left out.
\<close>

definition none_strip_error :: exc where
  "none_strip_error =
     Exc True ([CHR 0x27] @ ''NoneType'' @ [CHR 0x27] @ '' object has no attribute ''
               @ [CHR 0x27] @ ''strip'' @ [CHR 0x27])"

definition agent_body ::
  "(code_prompt \<Rightarrow> exc + string option)
   \<Rightarrow> (string \<Rightarrow> (string \<rightharpoonup> pyobj) \<Rightarrow> exc + (string \<rightharpoonup> pyobj))
   \<Rightarrow> (pyobj \<Rightarrow> exc + string) \<Rightarrow> (summary_prompt \<Rightarrow> exc + string option)
   \<Rightarrow> string \<Rightarrow> dataframe \<Rightarrow> dataframe \<Rightarrow> exc + string option" where
  "agent_body llm_code py_exec py_format llm_summary question deals_df wo_df =
     bind_err (llm_code (code_prompt_of question deals_df wo_df)) (\<lambda>message_content.
     bind_err (case message_content of
                 None \<Rightarrow> Inl none_strip_error
               | Some content \<Rightarrow> Inr (clean_code content)) (\<lambda>cleaned.
     bind_err (py_exec cleaned (initial_vars deals_df wo_df)) (\<lambda>local_vars.
     bind_err (case local_vars ''result'' of
                 None \<Rightarrow> Inr ''No result returned''
               | Some raw_val \<Rightarrow> py_format raw_val) (\<lambda>raw_val.
       llm_summary \<lparr>sp_question = question, sp_result = raw_val\<rparr>))))"

text \<open>The handler of lines 145 and 146: an instance of \<open>Exception\<close> becomes the returned
  message; any other exception leaves the function.\<close>

definition except_Exception :: "exc + string option \<Rightarrow> exc + string option" where
  "except_Exception r =
     (case r of
        Inr explanation \<Rightarrow> Inr explanation
      | Inl e \<Rightarrow> if is_Exception e then Inr (Some (agent_error_prefix @ str_of e)) else Inl e)"

text \<open>The value returned: a string, or \<open>None\<close> when the content of the second
  completion is \<open>None\<close>; \<open>Inl\<close> is an exception that reaches the caller.\<close>

definition run_bi_agent ::
  "(code_prompt \<Rightarrow> exc + string option)
   \<Rightarrow> (string \<Rightarrow> (string \<rightharpoonup> pyobj) \<Rightarrow> exc + (string \<rightharpoonup> pyobj))
   \<Rightarrow> (pyobj \<Rightarrow> exc + string) \<Rightarrow> (summary_prompt \<Rightarrow> exc + string option)
   \<Rightarrow> string \<Rightarrow> dataframe \<Rightarrow> dataframe \<Rightarrow> exc + string option" where
  "run_bi_agent llm_code py_exec py_format llm_summary question deals_df wo_df =
     except_Exception
       (agent_body llm_code py_exec py_format llm_summary question deals_df wo_df)"

section \<open>Properties of the text operations\<close>

lemma re_sub_class_single: "re_sub_class cls [r] s = map (\<lambda>c. if cls c then r else c) s"
  by (induction s) auto

lemma re_sub_class_none: "\<forall>c\<in>set s. \<not> cls c \<Longrightarrow> re_sub_class cls repl s = s"
  by (induction s) auto

lemma re_sub_class_delete: "re_sub_class cls [] s = filter (\<lambda>c. \<not> cls c) s"
  by (induction s) auto

lemma set_strip: "set (strip s) \<subseteq> set s"
proof -
  have "set (strip s) \<subseteq> set (dropWhile is_space s)"
    unfolding strip_def using set_dropWhileD by fastforce
  also have "\<dots> \<subseteq> set s" using set_dropWhileD by fastforce
  finally show ?thesis .
qed

lemma strip_fixed:
  assumes "s = [] \<or> (\<not> is_space (hd s) \<and> \<not> is_space (last s))"
  shows "strip s = s"
proof (cases "s = []")
  case True then show ?thesis by (simp add: strip_def)
next
  case False
  with assms have h: "\<not> is_space (hd s)" and l: "\<not> is_space (last s)" by auto
  from False h have a: "dropWhile is_space s = s" by (cases s) auto
  from False l have "\<not> is_space (hd (rev s))" by (simp add: hd_rev)
  with False have b: "dropWhile is_space (rev s) = rev s" by (cases "rev s") auto
  show ?thesis by (simp add: strip_def a b)
qed

lemma strip_ends:
  "strip s = [] \<or> (\<not> is_space (hd (strip s)) \<and> \<not> is_space (last (strip s)))"
proof (cases "strip s = []")
  case True then show ?thesis by simp
next
  case False
  let ?u = "dropWhile is_space s"
  let ?w = "dropWhile is_space (rev ?u)"
  have sw: "strip s = rev ?w" by (simp add: strip_def)
  with False have wne: "?w \<noteq> []" by simp
  then have hw: "\<not> is_space (hd ?w)" by (rule hd_dropWhile)
  then have l: "\<not> is_space (last (strip s))" using wne by (simp add: sw last_rev)
  have une: "?u \<noteq> []"
  proof
    assume e: "?u = []"
    have "?w = []" by (simp only: e rev.simps dropWhile.simps)
    with wne show False by simp
  qed
  then have hu: "\<not> is_space (hd ?u)" by (rule hd_dropWhile)
  have "last ?w = last (rev ?u)" using wne
    by (metis (no_types) append_Nil2 dropWhile_eq_Nil_conv last_appendR takeWhile_dropWhile_id)
  then have "last ?w = hd ?u" using une by (simp add: last_rev)
  then have "hd (strip s) = hd ?u" using wne by (simp add: sw hd_rev)
  with hu l show ?thesis by simp
qed

lemma strip_idem: "strip (strip s) = strip s"
  using strip_ends [of s] by (intro strip_fixed)

lemma sanitize_chars: "c \<in> set (sanitize t) \<Longrightarrow> is_word c \<or> is_space c"
proof -
  assume "c \<in> set (sanitize t)"
  then have "c \<in> set (re_sub_class (\<lambda>c. \<not> (is_word c \<or> is_space c)) '' '' t)"
    unfolding sanitize_def using set_strip by blast
  then show ?thesis
    by (auto simp: re_sub_class_single is_space_def split: if_splits)
qed

lemma starts_with_prefix: "starts_with k s = prefix k s"
  by (induction k s rule: starts_with.induct) auto

lemma py_in_sublist: "py_in k s = sublist k s"
  by (induction s) (auto simp: starts_with_prefix sublist_Cons_right)

lemma py_any_set: "py_any p ks = (\<exists>k\<in>set ks. p k)"
  by (induction ks) auto

section \<open>Sanitization of column titles\<close>

text \<open>
  Claim C9. Sanitizing a column title replaces every character that is neither a word
  character nor whitespace by a space and trims the result. The sanitized title
  therefore holds word characters and whitespace only (no punctuation in the sense of
  the pattern; the underscore is a word character and stays), it neither starts nor
  ends with whitespace, and sanitizing it a second time changes nothing.
\<close>

theorem sanitize_idempotent:
  "sanitize t = strip (map (\<lambda>c. if is_word c \<or> is_space c then c else CHR '' '') t)
   \<and> (\<forall>c \<in> set (sanitize t). is_word c \<or> is_space c)
   \<and> (sanitize t = [] \<or> (\<not> is_space (hd (sanitize t)) \<and> \<not> is_space (last (sanitize t))))
   \<and> sanitize (sanitize t) = sanitize t"
proof -
  have m: "sanitize t = strip (map (\<lambda>c. if is_word c \<or> is_space c then c else CHR '' '') t)"
    unfolding sanitize_def re_sub_class_single by (rule arg_cong [where f = strip]) auto
  have c: "\<forall>c \<in> set (sanitize t). is_word c \<or> is_space c"
    using sanitize_chars by blast
  have e: "sanitize t = [] \<or> (\<not> is_space (hd (sanitize t)) \<and> \<not> is_space (last (sanitize t)))"
    unfolding sanitize_def by (rule strip_ends)
  have "re_sub_class (\<lambda>c. \<not> (is_word c \<or> is_space c)) '' '' (sanitize t) = sanitize t"
    by (rule re_sub_class_none) (use c in blast)
  then have "sanitize (sanitize t) = strip (sanitize t)" by (simp add: sanitize_def)
  also have "\<dots> = sanitize t" by (simp add: sanitize_def strip_idem)
  finally have i: "sanitize (sanitize t) = sanitize t" .
  from m c e i show ?thesis by blast
qed

theorem sanitize_idempotent_witness:
  "sanitize ''Deal Value ($)'' = ''Deal Value''
   \<and> \<not> is_space (hd (sanitize ''Deal Value ($)''))
   \<and> \<not> is_space (last (sanitize ''Deal Value ($)''))
   \<and> sanitize (sanitize ''Deal Value ($)'') = sanitize ''Deal Value ($)''"
proof -
  have v: "sanitize ''Deal Value ($)'' = ''Deal Value''"
    by (simp add: sanitize_def strip_def is_word_def is_space_def is_alnum_def)
  have ne: "sanitize ''Deal Value ($)'' \<noteq> []"
    by (simp only: v) simp
  from v ne sanitize_idempotent [of "''Deal Value ($)''"] show ?thesis by blast
qed

lemma of_char_lower_char:
  "(of_char (lower_char c) :: nat) =
     (if (65 \<le> (of_char c :: nat) \<and> (of_char c :: nat) \<le> 90) \<or> (192 \<le> (of_char c :: nat) \<and> (of_char c :: nat) \<le> 222 \<and> (of_char c :: nat) \<noteq> 215)
      then of_char c + 32 else of_char c)"
  by (auto simp: lower_char_def Let_def)

lemma lower_letter_word: "lower_letter (lower_char c) \<Longrightarrow> is_word c"
  unfolding lower_letter_def of_char_lower_char is_word_def is_alnum_def Let_def
  by (auto split: if_splits)

lemma lower_letter_not_space: "lower_letter (lower_char c) \<Longrightarrow> \<not> is_space c"
  unfolding lower_letter_def of_char_lower_char is_space_def Let_def
  by (auto split: if_splits)

lemma lower_space: "lower_char CHR '' '' = CHR '' ''"
  by (simp add: lower_char_def)

lemma not_lower_letter_space: "\<not> lower_letter CHR '' ''"
  by (simp add: lower_letter_def)

lemma prefix_map_cong:
  "\<forall>c\<in>set s. \<forall>l\<in>set k. (f c = l) = (g c = l) \<Longrightarrow> prefix k (map f s) = prefix k (map g s)"
proof (induction s arbitrary: k)
  case Nil then show ?case by simp
next
  case (Cons c s)
  show ?case
  proof (cases k)
    case Nil then show ?thesis by simp
  next
    case (Cons l ls)
    have "prefix ls (map f s) = prefix ls (map g s)"
      using Cons.prems Cons.IH [of ls] \<open>k = l # ls\<close> by simp
    moreover have "(f c = l) = (g c = l)" using Cons.prems \<open>k = l # ls\<close> by simp
    ultimately show ?thesis using \<open>k = l # ls\<close> by auto
  qed
qed

lemma sublist_map_cong:
  "\<forall>c\<in>set s. \<forall>l\<in>set k. (f c = l) = (g c = l) \<Longrightarrow> sublist k (map f s) = sublist k (map g s)"
proof (induction s)
  case Nil then show ?case by simp
next
  case (Cons c s)
  have "prefix k (map f (c # s)) = prefix k (map g (c # s))"
    using Cons.prems by (rule prefix_map_cong)
  moreover have "sublist k (map f s) = sublist k (map g s)"
    using Cons by simp
  ultimately show ?case by (simp add: sublist_Cons_right)
qed

lemma sublist_map_dropWhile:
  "k \<noteq> [] \<Longrightarrow> \<forall>c. P c \<longrightarrow> f c \<notin> set k \<Longrightarrow>
   sublist k (map f (dropWhile P s)) = sublist k (map f s)"
proof (induction s)
  case Nil then show ?case by simp
next
  case (Cons c s)
  show ?case
  proof (cases "P c")
    case False then show ?thesis by simp
  next
    case True
    then have "f c \<notin> set k" using Cons.prems by blast
    then have "\<not> prefix k (f c # map f s)" using Cons.prems(1)
      by (cases k) auto
    then show ?thesis using True Cons by (simp add: sublist_Cons_right)
  qed
qed

lemma sublist_map_strip:
  assumes "k \<noteq> []" "\<forall>c. is_space c \<longrightarrow> f c \<notin> set k"
  shows "sublist k (map f (strip s)) = sublist k (map f s)"
proof -
  let ?u = "dropWhile is_space s"
  have rk: "rev k \<noteq> []" "\<forall>c. is_space c \<longrightarrow> f c \<notin> set (rev k)" using assms by auto
  have "sublist k (map f (strip s)) = sublist (rev k) (map f (dropWhile is_space (rev ?u)))"
    by (simp add: strip_def rev_map [symmetric] sublist_rev_left)
  also have "\<dots> = sublist (rev k) (map f (rev ?u))"
    using rk by (rule sublist_map_dropWhile)
  also have "\<dots> = sublist k (map f ?u)"
    by (simp add: rev_map sublist_rev_left)
  also have "\<dots> = sublist k (map f s)"
    using assms by (rule sublist_map_dropWhile)
  finally show ?thesis .
qed

lemma keyword_in_sanitized:
  assumes "k \<noteq> []" "\<forall>l\<in>set k. lower_letter l"
  shows "py_in k (lower (sanitize t)) = py_in k (lower t)"
proof -
  let ?g = "\<lambda>c. if \<not> (is_word c \<or> is_space c) then CHR '' '' else c"
  have sp: "\<forall>c. is_space c \<longrightarrow> lower_char c \<notin> set k"
    using assms(2) lower_letter_not_space by blast
  have "sublist k (lower (sanitize t)) = sublist k (map lower_char (map ?g t))"
    unfolding lower_def sanitize_def re_sub_class_single
    using assms(1) sp by (rule sublist_map_strip)
  also have "\<dots> = sublist k (map (lower_char \<circ> ?g) t)" by simp
  also have "\<dots> = sublist k (map lower_char t)"
  proof (rule sublist_map_cong, intro ballI)
    fix c l assume "l \<in> set k"
    then have ll: "lower_letter l" using assms(2) by blast
    show "((lower_char \<circ> ?g) c = l) = (lower_char c = l)"
    proof (cases "is_word c \<or> is_space c")
      case True then show ?thesis by auto
    next
      case False
      then have "lower_char c \<noteq> l" using ll lower_letter_word by blast
      moreover have "CHR '' '' \<noteq> l" using ll not_lower_letter_space by blast
      ultimately show ?thesis using False by (simp add: lower_space)
    qed
  qed
  finally show ?thesis by (simp add: py_in_sublist lower_def)
qed

lemma keywords_letters:
  "\<forall>k\<in>set (money_keywords @ exclude_keywords). k \<noteq> [] \<and> (\<forall>l\<in>set k. lower_letter l)"
  by (simp add: money_keywords_def exclude_keywords_def lower_letter_def)

lemma numeric_col_sanitize: "numeric_col (sanitize t) = numeric_col t"
proof -
  have "\<And>k. k \<in> set (money_keywords @ exclude_keywords) \<Longrightarrow>
          py_in k (lower (sanitize t)) = py_in k (lower t)"
    using keywords_letters keyword_in_sanitized by blast
  then show ?thesis
    by (simp add: numeric_col_def is_money_col_def is_excluded_def py_any_set)
qed

section \<open>Column classification\<close>

text \<open>
  Claim C3. A column is coerced to numbers exactly when its lower-cased title contains
  at least one money keyword and no exclude keyword, containment being that of a
  contiguous substring. The code tests the sanitized title; sanitizing changes no
  letter, so the test on the sanitized title and on the title itself agree. The title
  \<open>Probability\<close> contains an exclude keyword and is not coerced.
\<close>

theorem numeric_col_iff:
  "(numeric_col (sanitize title) \<longleftrightarrow>
      (\<exists>k\<in>set money_keywords. sublist k (lower title))
      \<and> (\<forall>k\<in>set exclude_keywords. \<not> sublist k (lower title)))
   \<and> numeric_col (sanitize title) = numeric_col title
   \<and> \<not> numeric_col (sanitize ''Probability'')"
proof -
  have a: "numeric_col title \<longleftrightarrow>
      (\<exists>k\<in>set money_keywords. sublist k (lower title))
      \<and> (\<forall>k\<in>set exclude_keywords. \<not> sublist k (lower title))"
    by (simp add: numeric_col_def is_money_col_def is_excluded_def py_any_set py_in_sublist)
  have "\<not> numeric_col ''Probability''"
    by (simp add: numeric_col_def is_money_col_def is_excluded_def lower_def lower_char_def
        money_keywords_def exclude_keywords_def)
  then have p: "\<not> numeric_col (sanitize ''Probability'')"
    by (simp add: numeric_col_sanitize)
  from a p show ?thesis by (simp only: numeric_col_sanitize) blast
qed

theorem numeric_col_iff_witness:
  "numeric_col (sanitize ''Deal Value ($)'') \<and> sublist ''value'' (lower ''Deal Value ($)'')
   \<and> \<not> numeric_col (sanitize ''Value Date'') \<and> sublist ''date'' (lower ''Value Date'')"
proof -
  have "py_in ''value'' (lower ''Deal Value ($)'')" by code_simp
  then have 1: "sublist ''value'' (lower ''Deal Value ($)'')"
    by (simp only: py_in_sublist)
  have "py_in ''date'' (lower ''Value Date'')" by code_simp
  then have 2: "sublist ''date'' (lower ''Value Date'')"
    by (simp only: py_in_sublist)
  have 3: "numeric_col ''Deal Value ($)''" by code_simp
  have 4: "''date'' \<in> set exclude_keywords" by (simp add: exclude_keywords_def)
  have 5: "''value'' \<in> set money_keywords" by (simp add: money_keywords_def)
  have "numeric_col (sanitize ''Deal Value ($)'')"
    using 3 numeric_col_iff [of "''Deal Value ($)''"] by blast
  moreover have "\<not> numeric_col (sanitize ''Value Date'')"
    using 2 4 numeric_col_iff [of "''Value Date''"] by blast
  ultimately show ?thesis using 1 2 by blast
qed

section \<open>Numeric coercion\<close>

lemma strip_non_numeric_filter:
  "strip_non_numeric s = filter (\<lambda>c. is_digit c \<or> c = CHR ''.'') s"
  by (simp add: strip_non_numeric_def re_sub_class_delete)

lemma coerce_column_length: "length (coerce_column f64 py_str col) = length col"
  by (simp add: coerce_column_def)

lemma coerce_column_nth:
  "i < length col \<Longrightarrow> coerce_column f64 py_str col ! i =
     Num (zero_above_ceiling (fillna0 (to_numeric f64 (strip_non_numeric (astype_str py_str (col ! i))))))"
  by (simp add: coerce_column_def)

lemma coerce_column_single:
  "coerce_column f64 py_str [v] =
     [Num (zero_above_ceiling (fillna0 (to_numeric f64 (strip_non_numeric (astype_str py_str v)))))]"
  by (simp add: coerce_column_def)

lemma astype_str_JStr: "astype_str py_str (Obj (JStr s)) = s"
  by (simp add: astype_str_def)

lemma parse_decimal_digits:
  assumes "ds \<noteq> []" "list_all is_digit ds"
  shows "parse_decimal ds = Some (of_nat (decimal_value ds))"
proof -
  from assms(2) have tw: "takeWhile is_digit ds = ds" and dw: "dropWhile is_digit ds = []"
    by (simp_all add: list_all_iff)
  show ?thesis unfolding parse_decimal_def Let_def tw dw using assms(1) by simp
qed

text \<open>A null text and the missing value give the same stored number: neither text has a
  digit. The column after lines 92 to 94 is the same whichever of the two the frame
  holds.\<close>

lemma strip_non_numeric_None: "strip_non_numeric ''None'' = []"
  by code_simp

lemma strip_non_numeric_nan: "strip_non_numeric ''nan'' = []"
  by code_simp

lemma coerce_column_null_text:
  "coerce_column f64 py_str (map (\<lambda>v. if v = Obj JNull then NaN else v) col)
     = coerce_column f64 py_str col"
proof -
  have "strip_non_numeric (astype_str py_str (if v = Obj JNull then NaN else v))
      = strip_non_numeric (astype_str py_str v)" for v
    by (simp add: astype_str_def strip_non_numeric_None strip_non_numeric_nan)
  then show ?thesis by (simp add: coerce_column_def Let_def comp_def)
qed

lemma coerce_column_null_zero:
  "coerce_column f64 py_str [Obj JNull] = [Num 0] \<and> coerce_column f64 py_str [NaN] = [Num 0]"
  by (simp add: coerce_column_def Let_def astype_str_def strip_non_numeric_None
      strip_non_numeric_nan to_numeric_def parse_decimal_def fillna0_def zero_above_ceiling_def)

section \<open>Errors raised inside the pipeline\<close>

lemma bind_err_Inr [simp]: "bind_err (Inr v) f = f v"
  by (simp add: bind_err_def)

lemma bind_err_Inl [simp]: "bind_err (Inl e) f = Inl e"
  by (simp add: bind_err_def)

lemma bind_err_eq_Inl:
  "bind_err r f = Inl e \<Longrightarrow> r = Inl e \<or> (\<exists>v. r = Inr v \<and> f v = Inl e)"
  by (cases r) auto

lemma bind_err_eq_Inr:
  "bind_err r f = Inr y \<Longrightarrow> \<exists>v. r = Inr v \<and> f v = Inr y"
  by (cases r) auto

lemma getitem_catchable: "getitem x k = Inl e \<Longrightarrow> catchable e"
  by (cases x) (auto split: option.splits)

lemma getitem0_catchable: "getitem0 x = Inl e \<Longrightarrow> catchable e"
  by (cases x) (auto split: list.splits)

lemma contains_catchable: "contains x k = Inl e \<Longrightarrow> catchable e"
  by (cases x) auto

lemma iter_catchable: "iter x = Inl e \<Longrightarrow> catchable e"
  by (cases x) auto

lemma str_lower_catchable: "str_lower x = Inl e \<Longrightarrow> catchable e"
  by (cases x) auto

lemma hash_key_catchable: "hash_key x = Inl e \<Longrightarrow> catchable e"
  by (cases x) auto

lemma build_col_map_catchable: "build_col_map cs m = Inl e \<Longrightarrow> catchable e"
proof (induction cs arbitrary: m)
  case Nil then show ?case by simp
next
  case (Cons c cs)
  from Cons.prems show ?case
    apply (simp only: build_col_map.simps)
    apply (drule bind_err_eq_Inl)
    apply (erule disjE)
     apply (erule getitem_catchable)
    apply (elim exE conjE)
    apply (drule bind_err_eq_Inl)
    apply (erule disjE)
     apply (erule str_lower_catchable)
    apply (elim exE conjE)
    apply (auto split: if_splits prod.splits
        dest!: bind_err_eq_Inl
        dest: getitem_catchable hash_key_catchable Cons.IH)
    done
qed

lemma build_item_vals_catchable: "build_item_vals vs m = Inl e \<Longrightarrow> catchable e"
proof (induction vs arbitrary: m)
  case Nil then show ?case by simp
next
  case (Cons v vs)
  from Cons.prems show ?case
    by (auto simp only: build_item_vals.simps dest!: bind_err_eq_Inl
        dest: getitem_catchable hash_key_catchable Cons.IH)
qed

lemma parse_items_catchable: "parse_items cm its = Inl e \<Longrightarrow> catchable e"
proof (induction its)
  case Nil then show ?case by simp
next
  case (Cons it its)
  from Cons.prems show ?case
    by (auto simp only: parse_items.simps dest!: bind_err_eq_Inl
        dest: getitem_catchable iter_catchable build_item_vals_catchable Cons.IH)
qed

lemma flatten_catchable: "flatten b = Inl e \<Longrightarrow> catchable e"
  unfolding flatten_def
  by (auto dest!: bind_err_eq_Inl
      dest: getitem_catchable iter_catchable build_col_map_catchable parse_items_catchable)

lemma coerce_loop_catchable: "coerce_loop f64 py_str ls df = Inl e \<Longrightarrow> catchable e"
  by (induction ls arbitrary: df) (auto split: if_splits)

lemma fetch_body_catchable: "fetch_body f64 py_str (Body data) = Inl e \<Longrightarrow> catchable e"
  unfolding fetch_body_def
  by (auto simp: Let_def split: if_splits dest!: bind_err_eq_Inl
      dest: getitem_catchable getitem0_catchable contains_catchable flatten_catchable
        coerce_loop_catchable)

section \<open>Upstream failures\<close>

lemma fetch_and_clean_Inl:
  "fetch_body f64 py_str up = Inl err \<Longrightarrow> catchable err \<Longrightarrow>
   fetch_and_clean f64 py_str up = Inr (Some (FetchError err), empty_frame)"
  by (simp add: fetch_and_clean_def)

lemma fetch_and_clean_Inr:
  "fetch_body f64 py_str up = Inr r \<Longrightarrow> fetch_and_clean f64 py_str up = Inr r"
  by (simp add: fetch_and_clean_def)

lemma fetch_and_clean_body_returns:
  "\<exists>rep df. fetch_and_clean f64 py_str (Body data) = Inr (rep, df)"
proof (cases "fetch_body f64 py_str (Body data)")
  case (Inl err)
  then show ?thesis using fetch_body_catchable fetch_and_clean_Inl by blast
next
  case (Inr r)
  then show ?thesis using fetch_and_clean_Inr by (cases r) fastforce
qed

lemma fetch_body_errors:
  assumes "map_of kvs ''errors'' = Some (JArr (error0 # errors))"
  shows "fetch_body f64 py_str (Body (JObj kvs)) =
    (case getitem error0 ''message'' of
       Inl e \<Rightarrow> Inl e
     | Inr message \<Rightarrow> Inr (Some (MondayApiError message), empty_frame))"
proof -
  from assms have "(''errors'', JArr (error0 # errors)) \<in> set kvs"
    by (rule map_of_SomeD)
  then have "fst (''errors'', JArr (error0 # errors)) \<in> fst ` set kvs"
    by (rule imageI)
  then have c: "contains (JObj kvs) ''errors'' = Inr True" by simp
  have g: "getitem (JObj kvs) ''errors'' = Inr (JArr (error0 # errors))"
    by (simp add: assms)
  have z: "getitem0 (JArr (error0 # errors)) = Inr error0" by simp
  have "fetch_body f64 py_str (Body (JObj kvs)) =
      bind_err (getitem error0 ''message'') (\<lambda>message.
        Inr (Some (MondayApiError message), empty_frame))"
    unfolding fetch_body_def upstream.case c g z bind_err_Inr by simp
  then show ?thesis by (simp add: bind_err_def)
qed

text \<open>
  Claim C6. Every upstream failure gives the empty table and a message to the user, and
  no exception reaches the caller: an exception of the transport or of the JSON decoding
  (an instance of \<open>Exception\<close>: network failure, timeout, malformed body), a response
  with a non-empty \<open>errors\<close> list (reported with its message when the first error carries
  one), and any error raised while the decoded body is taken apart. For every decoded
  body the function returns.
\<close>

theorem upstream_failure_reported:
  "(is_Exception e \<longrightarrow>
      fetch_and_clean f64 py_str (PostRaises e) = Inr (Some (FetchError (Raised e)), empty_frame)
      \<and> fetch_and_clean f64 py_str (JsonRaises e) = Inr (Some (FetchError (Raised e)), empty_frame))
   \<and> (map_of kvs ''errors'' = Some (JArr (error0 # errors)) \<longrightarrow>
        (\<exists>rep. fetch_and_clean f64 py_str (Body (JObj kvs)) = Inr (Some rep, empty_frame))
        \<and> (\<forall>message. getitem error0 ''message'' = Inr message \<longrightarrow>
              fetch_and_clean f64 py_str (Body (JObj kvs))
                = Inr (Some (MondayApiError message), empty_frame)))
   \<and> (\<forall>err. fetch_body f64 py_str (Body data) = Inl err \<longrightarrow>
        fetch_and_clean f64 py_str (Body data) = Inr (Some (FetchError err), empty_frame))
   \<and> (\<exists>rep df. fetch_and_clean f64 py_str (Body data) = Inr (rep, df))"
proof -
  have a: "is_Exception e \<longrightarrow>
      fetch_and_clean f64 py_str (PostRaises e) = Inr (Some (FetchError (Raised e)), empty_frame)
      \<and> fetch_and_clean f64 py_str (JsonRaises e) = Inr (Some (FetchError (Raised e)), empty_frame)"
    by (simp add: fetch_and_clean_def fetch_body_def)
  have b: "(\<exists>rep. fetch_and_clean f64 py_str (Body (JObj kvs)) = Inr (Some rep, empty_frame))
        \<and> (\<forall>message. getitem error0 ''message'' = Inr message \<longrightarrow>
              fetch_and_clean f64 py_str (Body (JObj kvs))
                = Inr (Some (MondayApiError message), empty_frame))"
    if h: "map_of kvs ''errors'' = Some (JArr (error0 # errors))"
  proof (cases "getitem error0 ''message''")
    case (Inl err)
    then have "fetch_body f64 py_str (Body (JObj kvs)) = Inl err"
      by (simp add: fetch_body_errors [OF h])
    moreover have "catchable err" using Inl by (rule getitem_catchable)
    ultimately show ?thesis using Inl by (simp add: fetch_and_clean_Inl)
  next
    case (Inr message)
    then have "fetch_body f64 py_str (Body (JObj kvs)) = Inr (Some (MondayApiError message), empty_frame)"
      by (simp add: fetch_body_errors [OF h])
    then show ?thesis using Inr by (simp add: fetch_and_clean_Inr)
  qed
  have c: "\<forall>err. fetch_body f64 py_str (Body data) = Inl err \<longrightarrow>
        fetch_and_clean f64 py_str (Body data) = Inr (Some (FetchError err), empty_frame)"
    using fetch_body_catchable fetch_and_clean_Inl by blast
  from a b c fetch_and_clean_body_returns [of f64 py_str data] show ?thesis by blast
qed

theorem upstream_failure_reported_witness:
  "fetch_and_clean (\<lambda>q. q) (\<lambda>v. []) (PostRaises (Exc True ''Read timed out''))
     = Inr (Some (FetchError (Raised (Exc True ''Read timed out''))), empty_frame)
   \<and> fetch_and_clean (\<lambda>q. q) (\<lambda>v. [])
       (Body (JObj [(''errors'', JArr [JObj [(''message'', JStr ''Not Authenticated'')]])]))
     = Inr (Some (MondayApiError (JStr ''Not Authenticated'')), empty_frame)
   \<and> fetch_body (\<lambda>q. q) (\<lambda>v. []) (Body (JObj [(''error_message'', JStr ''Internal error'')]))
     = Inl KeyError
   \<and> fetch_and_clean (\<lambda>q. q) (\<lambda>v. []) (Body (JObj [(''error_message'', JStr ''Internal error'')]))
     = Inr (Some (FetchError KeyError), empty_frame)"
proof -
  have 1: "is_Exception (Exc True ''Read timed out'')" by simp
  have 2: "map_of [(''errors'', JArr [JObj [(''message'', JStr ''Not Authenticated'')]])] ''errors''
    = Some (JArr (JObj [(''message'', JStr ''Not Authenticated'')] # []))" by simp
  have 3: "getitem (JObj [(''message'', JStr ''Not Authenticated'')]) ''message''
    = Inr (JStr ''Not Authenticated'')" by simp
  have 4: "fetch_body (\<lambda>q. q) (\<lambda>v. []) (Body (JObj [(''error_message'', JStr ''Internal error'')]))
     = Inl KeyError"
    by (simp add: fetch_body_def)
  from 1 2 3 4
    upstream_failure_reported [of "Exc True ''Read timed out''" "\<lambda>q. q" "\<lambda>v. []"
      "[(''errors'', JArr [JObj [(''message'', JStr ''Not Authenticated'')]])]"
      "JObj [(''message'', JStr ''Not Authenticated'')]" "[]"
      "JObj [(''error_message'', JStr ''Internal error'')]"]
  show ?thesis by blast
qed

section \<open>A board without items\<close>

lemma build_col_map_well_formed:
  "build_col_map (map column_json cs) m =
     Inr (fold (\<lambda>c. AList.update (JStr (fst c)) (snd c)) (non_name cs) m)"
  by (induction cs arbitrary: m) (simp_all add: column_json_def non_name_def)

lemma contains_response_json: "contains (response_json b) ''errors'' = Inr False"
  by (simp add: response_json_def)

lemma fetch_body_response_json:
  "fetch_body f64 py_str (Body (response_json b)) =
     bind_err (flatten b) (\<lambda>parsed_rows.
       let df = sanitize_columns (DataFrame parsed_rows) in
       bind_err (coerce_loop f64 py_str (columns df) df) (\<lambda>df'. Inr (None, df')))"
  by (simp add: fetch_body_def contains_response_json) (simp add: response_json_def)

lemma flatten_no_items: "flatten (board_json cs []) = Inr []"
  by (simp add: flatten_def board_json_def build_col_map_well_formed)

lemma fetch_and_clean_no_items:
  "fetch_and_clean f64 py_str (Body (response_json (board_json cs []))) = Inr (None, empty_frame)"
proof -
  have d: "sanitize_columns (DataFrame []) = empty_frame"
    by (simp add: DataFrame_def sanitize_columns_def empty_frame_def)
  have "fetch_body f64 py_str (Body (response_json (board_json cs []))) = Inr (None, empty_frame)"
    by (simp add: fetch_body_response_json flatten_no_items d) (simp add: columns_def empty_frame_def)
  then show ?thesis by (rule fetch_and_clean_Inr)
qed

text \<open>
  Claim C5. When the board has no items (and the response carries no error), the list
  of rows is empty and the pipeline returns the empty table: zero rows and zero columns,
  with no message and no exception. The column titles of the descriptors do not appear
  in it, since the table takes its columns from its rows.
\<close>

theorem no_items_empty_frame:
  "flatten (board_json cs []) = Inr []
   \<and> fetch_and_clean f64 py_str (Body (response_json (board_json cs []))) = Inr (None, empty_frame)
   \<and> nrows empty_frame = 0 \<and> columns empty_frame = []"
  by (simp add: flatten_no_items fetch_and_clean_no_items) (simp add: empty_frame_def columns_def)

text \<open>A board with two column descriptors and no items gives a table without columns.\<close>

theorem no_items_counterexample:
  "fetch_and_clean (\<lambda>q. q) (\<lambda>v. [])
     (Body (response_json (board_json [(''numbers'', ''Deal Value''), (''status'', ''Stage'')] [])))
     = Inr (None, \<lparr>nrows = 0, cols = []\<rparr>)
   \<and> columns \<lparr>nrows = 0, cols = []\<rparr> \<noteq> [''Item Name'', ''Deal Value'', ''Stage'']"
proof -
  have "fetch_and_clean (\<lambda>q. q) (\<lambda>v. [])
     (Body (response_json (board_json [(''numbers'', ''Deal Value''), (''status'', ''Stage'')] [])))
     = Inr (None, empty_frame)"
    by (rule fetch_and_clean_no_items)
  then show ?thesis by (simp add: empty_frame_def columns_def)
qed

section \<open>The range of the stored numbers\<close>

lemma parse_decimal_nonneg: "parse_decimal s = Some q \<Longrightarrow> 0 \<le> q"
  by (auto simp: parse_decimal_def Let_def split: list.splits if_splits)

lemma coerce_column_in_range:
  assumes "\<forall>q. 0 \<le> q \<longrightarrow> 0 \<le> f64 q"
  shows "\<forall>c \<in> set (coerce_column f64 py_str col). stored_in_range c"
proof -
  have "0 \<le> fillna0 (to_numeric f64 s)" for s
    using assms parse_decimal_nonneg
    by (cases "parse_decimal s") (auto simp: fillna0_def to_numeric_def)
  then have "stored_in_range (Num (zero_above_ceiling (fillna0 (to_numeric f64 s))))" for s
    by (simp add: stored_in_range_def zero_above_ceiling_def)
  then show ?thesis by (auto simp: coerce_column_def)
qed

lemma coerce_loop_invariant:
  assumes nonneg: "\<forall>q. 0 \<le> q \<longrightarrow> 0 \<le> f64 q"
  shows "coerce_loop f64 py_str ls df = Inr df' \<Longrightarrow>
    list_all2 (\<lambda>x y. fst y = fst x
        \<and> ((\<forall>c \<in> set (snd x). stored_in_range c) \<longrightarrow> (\<forall>c \<in> set (snd y). stored_in_range c))
        \<and> (fst x \<in> set ls \<and> numeric_col (fst x) \<longrightarrow> (\<forall>c \<in> set (snd y). stored_in_range c)))
      (cols df) (cols df')"
proof (induction ls arbitrary: df)
  case Nil
  then show ?case by (simp add: list_all2_refl)
next
  case (Cons col rest)
  show ?case
  proof (cases "numeric_col col")
    case False
    with Cons.prems have "coerce_loop f64 py_str rest df = Inr df'"
      by (auto simp: numeric_col_def split: if_splits)
    from Cons.IH [OF this] show ?thesis
      by (rule list_all2_mono) (use False in auto)
  next
    case True
    let ?df1 = "set_column col (coerce_column f64 py_str) df"
    from True Cons.prems have "coerce_loop f64 py_str rest ?df1 = Inr df'"
      by (simp add: numeric_col_def split: if_splits)
    from Cons.IH [OF this] have
      "list_all2 (\<lambda>x y. fst y = fst x
        \<and> ((\<forall>c \<in> set (snd x). stored_in_range c) \<longrightarrow> (\<forall>c \<in> set (snd y). stored_in_range c))
        \<and> (fst x \<in> set rest \<and> numeric_col (fst x) \<longrightarrow> (\<forall>c \<in> set (snd y). stored_in_range c)))
      (map (\<lambda>(l, vals). if l = col then (l, coerce_column f64 py_str vals) else (l, vals)) (cols df))
      (cols df')"
      by (simp add: set_column_def)
    then show ?thesis
      unfolding list_all2_map1
      by (rule list_all2_mono)
        (use coerce_column_in_range [OF nonneg] in \<open>auto split: if_splits prod.splits\<close>)
  qed
qed

lemma fetch_body_in_range:
  assumes nonneg: "\<forall>q. 0 \<le> q \<longrightarrow> 0 \<le> f64 q"
    and "fetch_body f64 py_str up = Inr (rep, df)"
    and "(l, vals) \<in> set (cols df)" and "numeric_col l"
  shows "\<forall>c \<in> set vals. stored_in_range c"
proof (cases up)
  case (PostRaises e) with assms(2) show ?thesis by (simp add: fetch_body_def)
next
  case (JsonRaises e) with assms(2) show ?thesis by (simp add: fetch_body_def)
next
  case (Body data)
  show ?thesis
  proof (cases "contains data ''errors'' = Inr True")
    case True
    with assms(2) Body have "df = empty_frame"
      by (auto simp: fetch_body_def dest!: bind_err_eq_Inr)
    with assms(3) show ?thesis by (simp add: empty_frame_def)
  next
    case False
    with assms(2) Body obtain parsed_rows where
      loop: "coerce_loop f64 py_str (columns (sanitize_columns (DataFrame parsed_rows)))
        (sanitize_columns (DataFrame parsed_rows)) = Inr df"
      by (auto simp: fetch_body_def Let_def split: if_splits dest!: bind_err_eq_Inr)
    let ?df0 = "sanitize_columns (DataFrame parsed_rows)"
    note inv = coerce_loop_invariant [OF nonneg loop]
    from assms(3) obtain i where i: "i < length (cols df)" "cols df ! i = (l, vals)"
      by (auto simp: in_set_conv_nth)
    from inv have len: "length (cols ?df0) = length (cols df)"
      by (rule list_all2_lengthD)
    from inv i len have
      "fst (cols ?df0 ! i) = l" and
      "fst (cols ?df0 ! i) \<in> set (columns ?df0) \<and> numeric_col (fst (cols ?df0 ! i))
        \<longrightarrow> (\<forall>c \<in> set vals. stored_in_range c)"
      by (auto dest: list_all2_nthD2)
    moreover have "fst (cols ?df0 ! i) \<in> set (columns ?df0)"
      using i len by (simp add: columns_def)
    ultimately show ?thesis using assms(4) by blast
  qed
qed

lemma fetch_and_clean_in_range:
  assumes nonneg: "\<forall>q. 0 \<le> q \<longrightarrow> 0 \<le> f64 q"
    and "fetch_and_clean f64 py_str up = Inr (rep, df)"
    and "(l, vals) \<in> set (cols df)" and "numeric_col l"
  shows "\<forall>c \<in> set vals. stored_in_range c"
proof (cases "fetch_body f64 py_str up")
  case (Inl e)
  with assms(2) have "df = empty_frame"
    by (auto simp: fetch_and_clean_def split: if_splits)
  with assms(3) show ?thesis by (simp add: empty_frame_def)
next
  case (Inr r)
  with assms(2) have "fetch_body f64 py_str up = Inr (rep, df)"
    by (simp add: fetch_and_clean_def)
  from fetch_body_in_range [OF nonneg this assms(3) assms(4)] show ?thesis .
qed

lemma coerce_column_above_ceiling:
  assumes "to_numeric f64 (strip_non_numeric (astype_str py_str v)) = Some x" "1000000000000 < x"
  shows "coerce_column f64 py_str [v] = [Num 0]"
  using assms by (simp add: coerce_column_single fillna0_def zero_above_ceiling_def)

lemma coerce_column_missing:
  "coerce_column f64 py_str [Obj (JStr ''''), Obj JNull] = [Num 0, Num 0]"
proof -
  have "strip_non_numeric '''' = ''''" "strip_non_numeric ''None'' = ''''"
    by (simp_all add: strip_non_numeric_def is_digit_def)
  moreover have "parse_decimal '''' = None"
    by (simp add: parse_decimal_def)
  ultimately show ?thesis
    by (simp add: coerce_column_def astype_str_def to_numeric_def fillna0_def zero_above_ceiling_def)
qed

lemma coerce_column_phone_number:
  assumes "f64 5551234567890 = 5551234567890"
  shows "coerce_column f64 py_str [Obj (JStr ''5551234567890'')] = [Num 0]"
proof -
  have "strip_non_numeric ''5551234567890'' = ''5551234567890''"
    by (simp add: strip_non_numeric_def is_digit_def)
  moreover have "parse_decimal ''5551234567890'' = Some 5551234567890"
    by (simp add: parse_decimal_def is_digit_def decimal_value_def digit_val_def)
  ultimately show ?thesis using assms
    by (intro coerce_column_above_ceiling [where x = 5551234567890])
      (simp_all add: astype_str_JStr to_numeric_def)
qed

text \<open>
  Claim C2. In every table the pipeline returns, every cell of a numeric column holds a
  number between 0 and \<open>10\<^sup>1\<^sup>2\<close>, the parser returning no negative number for a
  non-negative numeral. A cell whose text parses to a number above the ceiling is stored
  as 0 (neither the ceiling nor the number parsed): the 13-digit text \<open>5551234567890\<close> is
  stored as 0. The empty text and the missing text \<open>None\<close> are stored as 0.
\<close>

theorem money_values_in_range:
  assumes "\<forall>q. 0 \<le> q \<longrightarrow> 0 \<le> f64 q"
  shows "(fetch_and_clean f64 py_str up = Inr (rep, df) \<longrightarrow>
            (\<forall>(l, vals) \<in> set (cols df). numeric_col l \<longrightarrow> (\<forall>c \<in> set vals. stored_in_range c)))
    \<and> (\<forall>c \<in> set (coerce_column f64 py_str col). stored_in_range c)
    \<and> (to_numeric f64 (strip_non_numeric (astype_str py_str v)) = Some x \<and> 1000000000000 < x
          \<longrightarrow> coerce_column f64 py_str [v] = [Num 0])
    \<and> (f64 5551234567890 = 5551234567890
          \<longrightarrow> coerce_column f64 py_str [Obj (JStr ''5551234567890'')] = [Num 0])
    \<and> coerce_column f64 py_str [Obj (JStr ''''), Obj JNull] = [Num 0, Num 0]"
proof -
  have a: "fetch_and_clean f64 py_str up = Inr (rep, df) \<longrightarrow>
            (\<forall>(l, vals) \<in> set (cols df). numeric_col l \<longrightarrow> (\<forall>c \<in> set vals. stored_in_range c))"
    using fetch_and_clean_in_range [OF assms] by blast
  have b: "\<forall>c \<in> set (coerce_column f64 py_str col). stored_in_range c"
    using assms by (rule coerce_column_in_range)
  from a b coerce_column_above_ceiling [of f64 py_str v x]
    coerce_column_phone_number [of f64 py_str] coerce_column_missing [of f64 py_str]
  show ?thesis by blast
qed

lemma pipeline_example:
  "fetch_and_clean (\<lambda>q. q) (\<lambda>v. [])
     (Body (response_json (board_json
        [(''numbers'', ''Deal Value ($)''), (''name'', ''Name''), (''status'', ''Stage'')]
        [(''Deal 1'', [(''numbers'', JStr ''5551234567890''), (''status'', JStr ''Won'')]),
         (''Deal 2'', [(''numbers'', JStr ''$1,200.50'')])])))
   = Inr (None, \<lparr>nrows = 2, cols =
       [(''Item Name'', [Obj (JStr ''Deal 1''), Obj (JStr ''Deal 2'')]),
        (''Deal Value'', [Num 0, Num (2401 / 2)]),
        (''Stage'', [Obj (JStr ''Won''), Obj (JStr '''')])]\<rparr>)"
proof -
  have f: "flatten (board_json
        [(''numbers'', ''Deal Value ($)''), (''name'', ''Name''), (''status'', ''Stage'')]
        [(''Deal 1'', [(''numbers'', JStr ''5551234567890''), (''status'', JStr ''Won'')]),
         (''Deal 2'', [(''numbers'', JStr ''$1,200.50'')])])
     = Inr [[(''Item Name'', JStr ''Deal 1''), (''Deal Value ($)'', JStr ''5551234567890''),
             (''Stage'', JStr ''Won'')],
            [(''Item Name'', JStr ''Deal 2''), (''Deal Value ($)'', JStr ''$1,200.50''),
             (''Stage'', JStr '''')]]"
  proof -
    have lw: "lower ''Deal Value ($)'' = ''deal value ($)''" "lower ''Name'' = ''name''"
      "lower ''Stage'' = ''stage''"
      by code_simp+
    show ?thesis
      by (simp add: flatten_def board_json_def column_json_def item_json_def value_json_def lw)
  qed
  have d: "sanitize_columns (DataFrame
           [[(''Item Name'', JStr ''Deal 1''), (''Deal Value ($)'', JStr ''5551234567890''),
             (''Stage'', JStr ''Won'')],
            [(''Item Name'', JStr ''Deal 2''), (''Deal Value ($)'', JStr ''$1,200.50''),
             (''Stage'', JStr '''')]])
     = \<lparr>nrows = 2, cols =
       [(''Item Name'', [Obj (JStr ''Deal 1''), Obj (JStr ''Deal 2'')]),
        (''Deal Value'', [Obj (JStr ''5551234567890''), Obj (JStr ''$1,200.50'')]),
        (''Stage'', [Obj (JStr ''Won''), Obj (JStr '''')])]\<rparr>"
    by (simp add: DataFrame_def sanitize_columns_def sanitize_def strip_def is_word_def
        is_alnum_def is_space_def)
  have n: "\<not> is_money_col ''Item Name''" "is_money_col ''Deal Value''"
    "\<not> is_excluded ''Deal Value''" "\<not> is_money_col ''Stage''"
    by code_simp+
  have c: "coerce_column (\<lambda>q. q) (\<lambda>v. []) [Obj (JStr ''5551234567890''), Obj (JStr ''$1,200.50'')]
      = [Num 0, Num (2401 / 2)]"
    by (simp add: coerce_column_def strip_non_numeric_def astype_str_def to_numeric_def
        parse_decimal_def fillna0_def is_digit_def decimal_value_def digit_val_def
        zero_above_ceiling_def)
  have l: "coerce_loop (\<lambda>q. q) (\<lambda>v. []) [''Item Name'', ''Deal Value'', ''Stage'']
      \<lparr>nrows = 2, cols =
       [(''Item Name'', [Obj (JStr ''Deal 1''), Obj (JStr ''Deal 2'')]),
        (''Deal Value'', [Obj (JStr ''5551234567890''), Obj (JStr ''$1,200.50'')]),
        (''Stage'', [Obj (JStr ''Won''), Obj (JStr '''')])]\<rparr>
     = Inr \<lparr>nrows = 2, cols =
       [(''Item Name'', [Obj (JStr ''Deal 1''), Obj (JStr ''Deal 2'')]),
        (''Deal Value'', [Num 0, Num (2401 / 2)]),
        (''Stage'', [Obj (JStr ''Won''), Obj (JStr '''')])]\<rparr>"
    by (simp add: n columns_def set_column_def c)
  have cl: "columns \<lparr>nrows = 2, cols =
       [(''Item Name'', [Obj (JStr ''Deal 1''), Obj (JStr ''Deal 2'')]),
        (''Deal Value'', [Obj (JStr ''5551234567890''), Obj (JStr ''$1,200.50'')]),
        (''Stage'', [Obj (JStr ''Won''), Obj (JStr '''')])]\<rparr>
      = [''Item Name'', ''Deal Value'', ''Stage'']"
    by (simp add: columns_def)
  have "fetch_body (\<lambda>q. q) (\<lambda>v. [])
     (Body (response_json (board_json
        [(''numbers'', ''Deal Value ($)''), (''name'', ''Name''), (''status'', ''Stage'')]
        [(''Deal 1'', [(''numbers'', JStr ''5551234567890''), (''status'', JStr ''Won'')]),
         (''Deal 2'', [(''numbers'', JStr ''$1,200.50'')])])))
   = Inr (None, \<lparr>nrows = 2, cols =
       [(''Item Name'', [Obj (JStr ''Deal 1''), Obj (JStr ''Deal 2'')]),
        (''Deal Value'', [Num 0, Num (2401 / 2)]),
        (''Stage'', [Obj (JStr ''Won''), Obj (JStr '''')])]\<rparr>)"
    by (simp only: fetch_body_response_json f bind_err_Inr Let_def d cl l)
  then show ?thesis by (rule fetch_and_clean_Inr)
qed

theorem money_values_in_range_witness:
  "fetch_and_clean (\<lambda>q. q) (\<lambda>v. [])
     (Body (response_json (board_json
        [(''numbers'', ''Deal Value ($)''), (''name'', ''Name''), (''status'', ''Stage'')]
        [(''Deal 1'', [(''numbers'', JStr ''5551234567890''), (''status'', JStr ''Won'')]),
         (''Deal 2'', [(''numbers'', JStr ''$1,200.50'')])])))
   = Inr (None, \<lparr>nrows = 2, cols =
       [(''Item Name'', [Obj (JStr ''Deal 1''), Obj (JStr ''Deal 2'')]),
        (''Deal Value'', [Num 0, Num (2401 / 2)]),
        (''Stage'', [Obj (JStr ''Won''), Obj (JStr '''')])]\<rparr>)
   \<and> numeric_col ''Deal Value''
   \<and> stored_in_range (Num 0) \<and> stored_in_range (Num (2401 / 2))
   \<and> coerce_column (\<lambda>q. q) (\<lambda>v. []) [Obj (JStr ''5551234567890'')] = [Num 0]"
proof -
  have h: "\<forall>q::rat. 0 \<le> q \<longrightarrow> 0 \<le> (\<lambda>q. q) q" by simp
  have n: "numeric_col ''Deal Value''" by code_simp
  have p: "(\<lambda>q::rat. q) 5551234567890 = 5551234567890" by simp
  note t = money_values_in_range [OF h, of "\<lambda>v. []" _ None
      "\<lparr>nrows = 2, cols =
       [(''Item Name'', [Obj (JStr ''Deal 1''), Obj (JStr ''Deal 2'')]),
        (''Deal Value'', [Num 0, Num (2401 / 2)]),
        (''Stage'', [Obj (JStr ''Won''), Obj (JStr '''')])]\<rparr>"]
  from t [THEN conjunct1, rule_format, OF pipeline_example,
      of "(''Deal Value'', [Num 0, Num (2401 / 2)])"] n
  have "\<forall>c \<in> set [Num 0, Num (2401 / 2)]. stored_in_range c" by simp
  then have r1: "stored_in_range (Num 0)" and r2: "stored_in_range (Num (2401 / 2))"
    by simp_all
  from t [THEN conjunct2, THEN conjunct2, THEN conjunct2, THEN conjunct1] p
  have x: "coerce_column (\<lambda>q. q) (\<lambda>v. []) [Obj (JStr ''5551234567890'')] = [Num 0]"
    by (rule mp)
  show ?thesis by (intro conjI pipeline_example n r1 r2 x)
qed

section \<open>The record flattener on well-formed boards\<close>

lemma update_fresh: "k \<notin> fst ` set al \<Longrightarrow> AList.update k v al = al @ [(k, v)]"
  by (induction al) auto

lemma fold_update_fresh:
  "distinct (map (\<lambda>c. fst (g c)) cs) \<Longrightarrow> fst ` set al \<inter> (\<lambda>c. fst (g c)) ` set cs = {} \<Longrightarrow>
   fold (\<lambda>c. AList.update (fst (g c)) (snd (g c))) cs al = al @ map g cs"
proof (induction cs arbitrary: al)
  case Nil then show ?case by simp
next
  case (Cons c cs)
  from Cons.prems have fresh: "fst (g c) \<notin> fst ` set al" by auto
  have "fst ` set (al @ [g c]) \<inter> (\<lambda>c. fst (g c)) ` set cs = {}"
    using Cons.prems by auto
  moreover have "distinct (map (\<lambda>c. fst (g c)) cs)" using Cons.prems by simp
  ultimately have "fold (\<lambda>c. AList.update (fst (g c)) (snd (g c))) cs (al @ [g c])
      = (al @ [g c]) @ map g cs"
    by (rule Cons.IH [rotated])
  then show ?case by (simp add: update_fresh [OF fresh])
qed

lemma col_map_distinct_ids:
  assumes "distinct (map fst (non_name cs))"
  shows "build_col_map (map column_json cs) [] = Inr (map (\<lambda>c. (JStr (fst c), snd c)) (non_name cs))"
proof -
  have "distinct (map (\<lambda>c. fst (JStr (fst c), snd c)) (non_name cs))"
    using assms by (simp add: distinct_map inj_on_def)
  then have "fold (\<lambda>c. AList.update (fst (JStr (fst c), snd c)) (snd (JStr (fst c), snd c)))
      (non_name cs) [] = [] @ map (\<lambda>c. (JStr (fst c), snd c)) (non_name cs)"
    by (rule fold_update_fresh) simp
  then show ?thesis by (simp add: build_col_map_well_formed)
qed

lemma build_item_vals_well_formed:
  "build_item_vals (map value_json vs) m =
     Inr (fold (\<lambda>v. AList.update (JStr (fst v)) (snd v)) vs m)"
  by (induction vs arbitrary: m) (simp_all add: value_json_def)

lemma item_vals_absent:
  "i \<notin> fst ` set vs \<Longrightarrow> map_of m (JStr i) = None \<Longrightarrow>
   map_of (fold (\<lambda>v. AList.update (JStr (fst v)) (snd v)) vs m) (JStr i) = None"
  by (induction vs arbitrary: m) (auto simp: update_conv')

text \<open>The row the loop body builds for one well-formed item.\<close>

lemma parse_items_well_formed:
  "parse_items col_map (map item_json its) =
     Inr (map (\<lambda>it. fill_row (fold (\<lambda>v. AList.update (JStr (fst v)) (snd v)) (snd it) []) col_map
                  [(''Item Name'', JStr (fst it))]) its)"
  by (induction its) (simp_all add: item_json_def build_item_vals_well_formed)

lemma flatten_well_formed:
  assumes "distinct (map fst (non_name cs))"
  shows "flatten (board_json cs its) =
     Inr (map (\<lambda>it. fill_row (fold (\<lambda>v. AList.update (JStr (fst v)) (snd v)) (snd it) [])
                       (map (\<lambda>c. (JStr (fst c), snd c)) (non_name cs))
                       [(''Item Name'', JStr (fst it))]) its)"
  by (simp add: flatten_def board_json_def col_map_distinct_ids [OF assms] parse_items_well_formed)

lemma fill_row_keys:
  "fst ` set (fill_row iv cm row) = fst ` set row \<union> snd ` set cm"
proof (induction cm arbitrary: row)
  case Nil then show ?case by simp
next
  case (Cons p cm)
  obtain i t where p: "p = (i, t)" by (cases p)
  show ?case unfolding p by (simp add: Cons.IH dom_update)
qed

lemma fill_row_fresh:
  "distinct (map snd cm) \<Longrightarrow> set (map snd cm) \<inter> set (map fst row) = {} \<Longrightarrow>
   fill_row iv cm row =
     row @ map (\<lambda>p. (snd p, case map_of iv (fst p) of None \<Rightarrow> JStr [] | Some v \<Rightarrow> v)) cm"
proof (induction cm arbitrary: row)
  case Nil then show ?case by simp
next
  case (Cons p cm)
  obtain i t where p: "p = (i, t)" by (cases p)
  let ?v = "case map_of iv i of None \<Rightarrow> JStr [] | Some v \<Rightarrow> v"
  from Cons.prems p have fresh: "t \<notin> fst ` set row" by auto
  have "set (map snd cm) \<inter> set (map fst (row @ [(t, ?v)])) = {}"
    using Cons.prems p by auto
  moreover have "distinct (map snd cm)" using Cons.prems by simp
  ultimately have "fill_row iv cm (row @ [(t, ?v)]) =
     (row @ [(t, ?v)]) @ map (\<lambda>p. (snd p, case map_of iv (fst p) of None \<Rightarrow> JStr [] | Some v \<Rightarrow> v)) cm"
    by (rule Cons.IH [rotated])
  then show ?case unfolding p by (simp add: update_fresh [OF fresh])
qed

lemma first_seen_known: "set ks \<subseteq> set seen \<Longrightarrow> first_seen seen ks = seen"
  by (induction ks arbitrary: seen) auto

lemma first_seen_distinct:
  "distinct ks \<Longrightarrow> set ks \<inter> set seen = {} \<Longrightarrow> first_seen seen (ks @ rest) = first_seen (seen @ ks) rest"
proof (induction ks arbitrary: seen)
  case Nil then show ?case by simp
next
  case (Cons k ks)
  have "first_seen (seen @ [k]) (ks @ rest) = first_seen ((seen @ [k]) @ ks) rest"
    by (rule Cons.IH) (use Cons.prems in auto)
  then show ?case using Cons.prems by simp
qed

lemma DataFrame_columns:
  assumes "recs \<noteq> []" "distinct ks" "\<forall>r \<in> set recs. map fst r = ks"
  shows "columns (DataFrame recs) = ks"
proof -
  from assms(1) obtain r rs where recs: "recs = r # rs" by (cases recs) auto
  with assms(3) have r: "map fst r = ks" and rs: "\<forall>r \<in> set rs. map fst r = ks" by auto
  have "concat (map (map fst) recs) = ks @ concat (map (map fst) rs)"
    by (simp add: recs r)
  moreover have "first_seen [] (ks @ concat (map (map fst) rs))
      = first_seen ([] @ ks) (concat (map (map fst) rs))"
    by (rule first_seen_distinct) (use assms(2) in auto)
  moreover have "first_seen ks (concat (map (map fst) rs)) = ks"
    by (rule first_seen_known) (use rs in auto)
  ultimately have "first_seen [] (concat (map (map fst) recs)) = ks" by simp
  then show ?thesis by (simp add: DataFrame_def columns_def Let_def comp_def)
qed

lemma DataFrame_nrows: "nrows (DataFrame recs) = length recs"
  by (simp add: DataFrame_def Let_def)

text \<open>
  Claim C4. For a well-formed board whose kept column descriptors (those not titled
  \<open>name\<close>) have distinct ids, the flattener gives one row per item and as many rows in
  the frame; the keys of every row are \<open>Item Name\<close> and the titles of the kept
  descriptors. When these titles are distinct and none is \<open>Item Name\<close>, every row has
  one column per kept descriptor and one more, in the order of the descriptors, the
  frame of a non-empty item list has these columns, and a column whose id an item does
  not carry holds the empty string in the row of that item.
\<close>

theorem flatten_rows:
  assumes "distinct (map fst (non_name cs))"
  shows "\<exists>rows. flatten (board_json cs its) = Inr rows
     \<and> length rows = length its
     \<and> nrows (DataFrame rows) = length its
     \<and> (\<forall>row \<in> set rows. set (map fst row) = insert ''Item Name'' (set (map snd (non_name cs))))
     \<and> (distinct (map snd (non_name cs)) \<and> ''Item Name'' \<notin> set (map snd (non_name cs)) \<longrightarrow>
          (\<forall>row \<in> set rows. map fst row = ''Item Name'' # map snd (non_name cs)
                \<and> length row = length (non_name cs) + 1)
          \<and> (its \<noteq> [] \<longrightarrow> columns (DataFrame rows) = ''Item Name'' # map snd (non_name cs))
          \<and> (\<forall>n < length its. \<forall>c \<in> set (non_name cs).
                fst c \<notin> fst ` set (snd (its ! n)) \<longrightarrow> map_of (rows ! n) (snd c) = Some (JStr '''')))"
proof -
  let ?cm = "map (\<lambda>c. (JStr (fst c), snd c)) (non_name cs)"
  let ?iv = "\<lambda>it. fold (\<lambda>v. AList.update (JStr (fst v)) (snd v)) (snd it) []"
  let ?row = "\<lambda>it. fill_row (?iv it) ?cm [(''Item Name'', JStr (fst it))]"
  let ?rows = "map ?row its"
  let ?titles = "map snd (non_name cs)"
  have titles: "map snd ?cm = ?titles" by (simp add: comp_def)
  have f: "flatten (board_json cs its) = Inr ?rows"
    using assms by (rule flatten_well_formed)
  have len: "length ?rows = length its" by simp
  have nr: "nrows (DataFrame ?rows) = length its" by (simp add: DataFrame_nrows)
  have keys: "set (map fst (?row it)) = insert ''Item Name'' (set ?titles)" for it
    using fill_row_keys [of "?iv it" ?cm "[(''Item Name'', JStr (fst it))]"]
    by (simp add: image_image)
  have k: "\<forall>row \<in> set ?rows. set (map fst row) = insert ''Item Name'' (set ?titles)"
    using keys by auto
  have d: "(\<forall>row \<in> set ?rows. map fst row = ''Item Name'' # ?titles
                \<and> length row = length (non_name cs) + 1)
          \<and> (its \<noteq> [] \<longrightarrow> columns (DataFrame ?rows) = ''Item Name'' # ?titles)
          \<and> (\<forall>n < length its. \<forall>c \<in> set (non_name cs).
                fst c \<notin> fst ` set (snd (its ! n)) \<longrightarrow> map_of (?rows ! n) (snd c) = Some (JStr ''''))"
    if dt: "distinct ?titles" and nin: "''Item Name'' \<notin> set ?titles"
  proof -
    have row: "?row it = (''Item Name'', JStr (fst it))
        # map (\<lambda>p. (snd p, case map_of (?iv it) (fst p) of None \<Rightarrow> JStr [] | Some v \<Rightarrow> v)) ?cm" for it
      using fill_row_fresh [of ?cm "[(''Item Name'', JStr (fst it))]" "?iv it"] dt nin
      by (simp add: comp_def)
    have mf: "map fst (?row it) = ''Item Name'' # ?titles" for it
      by (simp only: row) (simp add: comp_def)
    have lr: "length (?row it) = length (non_name cs) + 1" for it
      by (simp only: row) simp
    have 1: "\<forall>row \<in> set ?rows. map fst row = ''Item Name'' # ?titles
                \<and> length row = length (non_name cs) + 1"
      using mf lr by auto
    have 2: "columns (DataFrame ?rows) = ''Item Name'' # ?titles" if "its \<noteq> []"
    proof (rule DataFrame_columns)
      show "?rows \<noteq> []" using that by simp
      show "distinct (''Item Name'' # ?titles)" using dt nin by simp
      show "\<forall>r \<in> set ?rows. map fst r = ''Item Name'' # ?titles" using mf by auto
    qed
    have 3: "map_of (?rows ! n) (snd c) = Some (JStr '''')"
      if n: "n < length its" and c: "c \<in> set (non_name cs)"
        and a: "fst c \<notin> fst ` set (snd (its ! n))" for n c
    proof -
      let ?it = "its ! n"
      have abs: "map_of (?iv ?it) (JStr (fst c)) = None"
        using a by (intro item_vals_absent) simp_all
      have dk: "distinct (map fst (map (\<lambda>p. (snd p,
          case map_of (?iv ?it) (fst p) of None \<Rightarrow> JStr [] | Some v \<Rightarrow> v)) ?cm))"
        using dt by (simp add: comp_def)
      have "(snd c, JStr '''') \<in> set (map (\<lambda>p. (snd p,
          case map_of (?iv ?it) (fst p) of None \<Rightarrow> JStr [] | Some v \<Rightarrow> v)) ?cm)"
        using c abs by (force simp: image_iff)
      with dk have "map_of (map (\<lambda>p. (snd p,
          case map_of (?iv ?it) (fst p) of None \<Rightarrow> JStr [] | Some v \<Rightarrow> v)) ?cm) (snd c)
          = Some (JStr '''')"
        by (rule map_of_is_SomeI)
      moreover have "snd c \<noteq> ''Item Name''"
      proof
        assume "snd c = ''Item Name''"
        with c have "''Item Name'' \<in> snd ` set (non_name cs)" by (metis imageI)
        with nin show False by simp
      qed
      moreover have "?rows ! n = ?row ?it" using n by simp
      ultimately show ?thesis by (simp only: row) simp
    qed
    from 1 2 3 show ?thesis by blast
  qed
  from f len nr k d show ?thesis by blast
qed

theorem flatten_rows_witness:
  "flatten (board_json [(''numbers'', ''Deal Value''), (''name'', ''Name''), (''status'', ''Stage'')]
      [(''Deal 1'', [(''numbers'', JStr ''100'')])])
     = Inr [[(''Item Name'', JStr ''Deal 1''), (''Deal Value'', JStr ''100''), (''Stage'', JStr '''')]]
   \<and> columns (DataFrame
       [[(''Item Name'', JStr ''Deal 1''), (''Deal Value'', JStr ''100''), (''Stage'', JStr '''')]])
     = [''Item Name'', ''Deal Value'', ''Stage'']"
proof -
  let ?cs = "[(''numbers'', ''Deal Value''), (''name'', ''Name''), (''status'', ''Stage'')]"
  let ?its = "[(''Deal 1'', [(''numbers'', JStr ''100'')])]"
  let ?rows = "[[(''Item Name'', JStr ''Deal 1''), (''Deal Value'', JStr ''100''), (''Stage'', JStr '''')]]"
  have lw: "lower ''Deal Value'' = ''deal value''" "lower ''Name'' = ''name''"
    "lower ''Stage'' = ''stage''"
    by code_simp+
  have nn: "non_name ?cs = [(''numbers'', ''Deal Value''), (''status'', ''Stage'')]"
    by (simp add: non_name_def lw)
  have h: "distinct (map fst (non_name ?cs))" by (simp add: nn)
  have f: "flatten (board_json ?cs ?its) = Inr ?rows"
    by (simp add: flatten_def board_json_def column_json_def item_json_def value_json_def lw)
  from flatten_rows [OF h, of ?its] obtain rows where
    r: "flatten (board_json ?cs ?its) = Inr rows" and
    c: "distinct (map snd (non_name ?cs)) \<and> ''Item Name'' \<notin> set (map snd (non_name ?cs)) \<longrightarrow>
         (?its \<noteq> [] \<longrightarrow> columns (DataFrame rows) = ''Item Name'' # map snd (non_name ?cs))"
    by blast
  from r f have "rows = ?rows" by simp
  moreover have "distinct (map snd (non_name ?cs)) \<and> ''Item Name'' \<notin> set (map snd (non_name ?cs))"
    by (simp add: nn)
  moreover have "''Item Name'' # map snd (non_name ?cs) = [''Item Name'', ''Deal Value'', ''Stage'']"
    by (simp add: nn)
  ultimately have "columns (DataFrame ?rows) = [''Item Name'', ''Deal Value'', ''Stage'']"
    using c by simp
  with f show ?thesis by (rule conjI)
qed

text \<open>Two descriptors with the same title fill one column: the row has two columns where
  the descriptors and \<open>Item Name\<close> count three.\<close>

theorem flatten_rows_counterexample:
  "flatten (board_json [(''numbers'', ''Value''), (''numbers2'', ''Value'')]
      [(''Deal 1'', [(''numbers'', JStr ''10''), (''numbers2'', JStr ''20'')])])
     = Inr [[(''Item Name'', JStr ''Deal 1''), (''Value'', JStr ''20'')]]
   \<and> length [(''Item Name'', JStr ''Deal 1''), (''Value'', JStr ''20'')] = 2
   \<and> length (non_name [(''numbers'', ''Value''), (''numbers2'', ''Value'')]) + 1 = 3"
proof -
  have lw: "lower ''Value'' = ''value''" by code_simp
  have "flatten (board_json [(''numbers'', ''Value''), (''numbers2'', ''Value'')]
      [(''Deal 1'', [(''numbers'', JStr ''10''), (''numbers2'', JStr ''20'')])])
     = Inr [[(''Item Name'', JStr ''Deal 1''), (''Value'', JStr ''20'')]]"
    by (simp add: flatten_def board_json_def column_json_def item_json_def value_json_def lw)
  moreover have "length (non_name [(''numbers'', ''Value''), (''numbers2'', ''Value'')]) + 1 = 3"
    by (simp add: non_name_def lw)
  ultimately show ?thesis by simp
qed

section \<open>Stripping the code fence\<close>

lemma starts_with_python_backquote: "starts_with ''```python'' (c # cs) \<Longrightarrow> c = CHR 0x60"
  by simp

lemma starts_with_fence_backquote: "starts_with ''```'' (c # cs) \<Longrightarrow> c = CHR 0x60"
  by simp

lemma re_sub_fence_skip:
  assumes "c \<noteq> CHR 0x60"
  shows "re_sub_fence bol (c # cs) = c # re_sub_fence (c = CHR 0x0A) cs"
proof -
  have a: "\<not> starts_with ''```python'' (c # cs)"
    using assms starts_with_python_backquote by blast
  have b: "\<not> starts_with ''```'' (c # cs)"
    using assms starts_with_fence_backquote by blast
  show ?thesis
    by (subst re_sub_fence.simps(2)) (simp only: a b simp_thms if_False)
qed

lemma re_sub_fence_open:
  "re_sub_fence True (''```python'' @ rest) =
     re_sub_fence (takeWhile is_space rest \<noteq> [] \<and> last (takeWhile is_space rest) = CHR 0x0A)
       (dropWhile is_space rest)"
proof -
  have "starts_with ''```python'' (''```python'' @ rest)" by simp
  moreover have "drop 9 (''```python'' @ rest) = rest" by simp
  ultimately show ?thesis
    by (simp only: append_Cons append_Nil) (subst re_sub_fence.simps(2), simp)
qed

lemma re_sub_fence_close: "re_sub_fence bol ''```'' = []"
  by (subst re_sub_fence.simps(2)) (simp add: re_sub_fence.simps(1))

lemma re_sub_fence_bare_open:
  "re_sub_fence True (CHR 0x60 # CHR 0x60 # CHR 0x60 # CHR 0x0A # rest) =
     re_sub_fence False (CHR 0x0A # rest)"
  by (subst re_sub_fence.simps(2)) simp

lemma re_sub_fence_no_backquote:
  "\<forall>c \<in> set s. c \<noteq> CHR 0x60 \<Longrightarrow> re_sub_fence bol s = s"
proof (induction s arbitrary: bol)
  case Nil then show ?case by (simp add: re_sub_fence.simps(1))
next
  case (Cons c s)
  then have "c \<noteq> CHR 0x60" and "\<forall>c \<in> set s. c \<noteq> CHR 0x60" by simp_all
  then show ?case using Cons.IH by (simp add: re_sub_fence_skip)
qed

lemma re_sub_fence_closing:
  "\<forall>c \<in> set s. c \<noteq> CHR 0x60 \<Longrightarrow>
   re_sub_fence bol (s @ CHR 0x0A # ''```'') = s @ [CHR 0x0A]"
proof (induction s arbitrary: bol)
  case Nil
  have "re_sub_fence bol (CHR 0x0A # ''```'') = CHR 0x0A # re_sub_fence True ''```''"
    by (simp add: re_sub_fence_skip)
  then show ?case by (simp add: re_sub_fence_close)
next
  case (Cons c s)
  then have "c \<noteq> CHR 0x60" and "\<forall>c \<in> set s. c \<noteq> CHR 0x60" by simp_all
  then show ?case using Cons.IH by (simp add: re_sub_fence_skip)
qed

lemma dropWhile_stripped:
  "s \<noteq> [] \<Longrightarrow> \<not> is_space (hd s) \<Longrightarrow> dropWhile is_space (s @ t) = s @ t"
  by (cases s) auto

lemma strip_trailing_newline:
  assumes "s \<noteq> []" "\<not> is_space (hd s)" "\<not> is_space (last s)"
  shows "strip (s @ [CHR 0x0A]) = s"
proof -
  have a: "dropWhile is_space (s @ [CHR 0x0A]) = s @ [CHR 0x0A]"
    using assms(1,2) by (rule dropWhile_stripped)
  have "is_space (CHR 0x0A)" by (simp add: is_space_def)
  moreover have "dropWhile is_space (rev s) = rev s"
    using assms(1,3) by (cases "rev s") (auto simp: hd_rev)
  ultimately show ?thesis by (simp add: strip_def a)
qed

lemma backquote_not_space: "\<not> is_space (CHR 0x60)"
  by (simp add: is_space_def)

lemma clean_code_fenced:
  assumes nb: "\<forall>c \<in> set code. c \<noteq> CHR 0x60"
    and ne: "code \<noteq> []" and h: "\<not> is_space (hd code)" and l: "\<not> is_space (last code)"
    and ws: "\<forall>c \<in> set ws. is_space c"
  shows "clean_code (''```python'' @ ws @ code @ CHR 0x0A # ''```'') = code"
proof -
  let ?tail = "CHR 0x0A # ''```''"
  let ?content = "''```python'' @ ws @ code @ ?tail"
  have "hd ?content = CHR 0x60" by simp
  moreover have "last ?content = CHR 0x60" by simp
  ultimately have s: "strip ?content = ?content"
    using backquote_not_space by (intro strip_fixed) (simp only:, simp)
  have d: "dropWhile is_space (ws @ code @ ?tail) = code @ ?tail"
  proof -
    have "dropWhile is_space (ws @ code @ ?tail) = dropWhile is_space (code @ ?tail)"
      using ws by (intro dropWhile_append2) simp
    also have "\<dots> = code @ ?tail" using ne h by (rule dropWhile_stripped)
    finally show ?thesis .
  qed
  have "re_sub_fence True ?content
      = re_sub_fence (takeWhile is_space (ws @ code @ ?tail) \<noteq> []
             \<and> last (takeWhile is_space (ws @ code @ ?tail)) = CHR 0x0A)
          (dropWhile is_space (ws @ code @ ?tail))"
    by (rule re_sub_fence_open)
  also have "\<dots> = code @ [CHR 0x0A]"
    unfolding d using nb by (rule re_sub_fence_closing)
  finally have "re_sub_fence True ?content = code @ [CHR 0x0A]" .
  then have "clean_code ?content = strip (code @ [CHR 0x0A])"
    by (simp only: clean_code_def Let_def s)
  also have "\<dots> = code" using ne h l by (rule strip_trailing_newline)
  finally show ?thesis .
qed

lemma clean_code_bare_fence:
  assumes nb: "\<forall>c \<in> set code. c \<noteq> CHR 0x60"
    and ne: "code \<noteq> []" and h: "\<not> is_space (hd code)" and l: "\<not> is_space (last code)"
  shows "clean_code (''```'' @ CHR 0x0A # code @ CHR 0x0A # ''```'') = code"
proof -
  let ?tail = "CHR 0x0A # ''```''"
  let ?content = "''```'' @ CHR 0x0A # code @ ?tail"
  have "hd ?content = CHR 0x60" by simp
  moreover have "last ?content = CHR 0x60" by simp
  ultimately have s: "strip ?content = ?content"
    using backquote_not_space by (intro strip_fixed) (simp only:, simp)
  have "re_sub_fence True ?content = re_sub_fence False (CHR 0x0A # code @ ?tail)"
    using re_sub_fence_bare_open [of "code @ ?tail"] by simp
  also have "\<dots> = CHR 0x0A # re_sub_fence True (code @ ?tail)"
    by (simp add: re_sub_fence_skip)
  also have "\<dots> = CHR 0x0A # code @ [CHR 0x0A]"
    using nb by (simp only: re_sub_fence_closing)
  finally have "re_sub_fence True ?content = CHR 0x0A # code @ [CHR 0x0A]" .
  then have "clean_code ?content = strip (CHR 0x0A # code @ [CHR 0x0A])"
    by (simp only: clean_code_def Let_def s)
  also have "\<dots> = strip (code @ [CHR 0x0A])"
    by (simp add: strip_def is_space_def)
  also have "\<dots> = code" using ne h l by (rule strip_trailing_newline)
  finally show ?thesis .
qed

lemma clean_code_unfenced:
  assumes nb: "\<forall>c \<in> set code. c \<noteq> CHR 0x60"
    and ne: "code \<noteq> []" and h: "\<not> is_space (hd code)" and l: "\<not> is_space (last code)"
  shows "clean_code code = code"
proof -
  have s: "strip code = code" using h l by (intro strip_fixed) simp
  have "re_sub_fence True code = code" using nb by (rule re_sub_fence_no_backquote)
  then show ?thesis by (simp only: clean_code_def Let_def s)
qed

lemma starts_with_decompose: "starts_with k s \<Longrightarrow> \<exists>rest. s = k @ rest"
  by (auto simp: starts_with_prefix prefix_def)

lemma dropWhile_append_stop:
  "v = [] \<or> \<not> P (hd v) \<Longrightarrow> dropWhile P (r @ v) = dropWhile P r @ v"
  by (induction r) (cases v; auto)+

lemma takeWhile_append_stop:
  "v = [] \<or> \<not> P (hd v) \<Longrightarrow> takeWhile P (r @ v) = takeWhile P r"
  by (induction r) (cases v; auto)+

lemma last_dropWhile: "dropWhile P xs \<noteq> [] \<Longrightarrow> last (dropWhile P xs) = last xs"
  by (induction xs) (auto split: if_splits)

lemma re_sub_fence_close_line:
  assumes "w = [] \<or> hd w = CHR 0x0A"
  shows "re_sub_fence bol (''```'' @ w) = re_sub_fence False w"
proof -
  have a: "\<not> starts_with ''```python'' (''```'' @ w)"
    using assms by (cases w) auto
  have b: "(case w of [] \<Rightarrow> True | d # ds \<Rightarrow> d = CHR 0x0A)"
    using assms by (cases w) auto
  show ?thesis
    by (simp only: append_Cons append_Nil)
       (subst re_sub_fence.simps(2), use a b in simp)
qed

lemma re_sub_fence_keep:
  assumes "\<not> (bol \<and> starts_with ''```python'' (c # cs))"
    and "\<not> (starts_with ''```'' (c # cs)
            \<and> (case drop 3 (c # cs) of [] \<Rightarrow> True | d # ds \<Rightarrow> d = CHR 0x0A))"
  shows "re_sub_fence bol (c # cs) = c # re_sub_fence (c = CHR 0x0A) cs"
  using assms by (subst re_sub_fence.simps(2)) (simp only: if_False)

lemma re_sub_fence_other_marker:
  assumes "t \<noteq> []" "hd t \<noteq> CHR 0x60" "hd t \<noteq> CHR 0x0A" "\<not> starts_with ''python'' t"
  shows "re_sub_fence bol (''```'' @ t) = ''```'' @ re_sub_fence False t"
proof -
  from assms(1) obtain d ds where t: "t = d # ds" by (cases t) auto
  with assms have d: "d \<noteq> CHR 0x60" "d \<noteq> CHR 0x0A" by simp_all
  have 1: "re_sub_fence bol (CHR 0x60 # CHR 0x60 # CHR 0x60 # t)
      = CHR 0x60 # re_sub_fence False (CHR 0x60 # CHR 0x60 # t)"
    using assms(4) d by (subst re_sub_fence_keep) (simp_all add: t)
  have 2: "re_sub_fence False (CHR 0x60 # CHR 0x60 # t)
      = CHR 0x60 # re_sub_fence False (CHR 0x60 # t)"
    using d by (subst re_sub_fence_keep) (simp_all add: t)
  have 3: "re_sub_fence False (CHR 0x60 # t) = CHR 0x60 # re_sub_fence False t"
    using d by (subst re_sub_fence_keep) (simp_all add: t)
  show ?thesis by (simp add: 1 2 3)
qed

lemma re_sub_fence_skip_prefix:
  "\<forall>c \<in> set pre. c \<noteq> CHR 0x60 \<Longrightarrow>
   re_sub_fence bol (pre @ v) = pre @ re_sub_fence (if pre = [] then bol else last pre = CHR 0x0A) v"
proof (induction pre arbitrary: bol)
  case Nil then show ?case by simp
next
  case (Cons c pre)
  then have c: "c \<noteq> CHR 0x60" and p: "\<forall>c \<in> set pre. c \<noteq> CHR 0x60" by simp_all
  have "re_sub_fence bol ((c # pre) @ v) = c # re_sub_fence (c = CHR 0x0A) (pre @ v)"
    using c by (simp add: re_sub_fence_skip)
  also have "\<dots> = c # pre @ re_sub_fence (if pre = [] then c = CHR 0x0A else last pre = CHR 0x0A) v"
    using Cons.IH [OF p] by simp
  finally show ?case by simp
qed

text \<open>A text that does not end with a backquote is processed on its own when a text
  that starts with a backquote follows it: no match lies across the border.\<close>

lemma python_marker_border:
  assumes "''```python'' = u @ us" "u \<noteq> []" "us \<noteq> []" "last u \<noteq> CHR 0x60"
  shows "hd us \<noteq> CHR 0x60"
  using assms by (auto simp: Cons_eq_append_conv)

lemma starts_with_python_append:
  assumes u: "u \<noteq> []" "last u \<noteq> CHR 0x60" and v: "v = [] \<or> hd v = CHR 0x60"
  shows "starts_with ''```python'' (u @ v) = starts_with ''```python'' u"
proof
  assume "starts_with ''```python'' (u @ v)"
  then have pre: "prefix ''```python'' (u @ v)" by (simp only: starts_with_prefix)
  show "starts_with ''```python'' u"
  proof (cases "prefix ''```python'' u")
    case True then show ?thesis by (simp only: starts_with_prefix)
  next
    case False
    with pre obtain us where us: "''```python'' = u @ us" "prefix us v"
      by (auto simp: prefix_append)
    from False us(1) have n: "us \<noteq> []" by auto
    with us(2) have "v \<noteq> []" and "hd us = hd v" by (auto simp: prefix_def)
    with v have "hd us = CHR 0x60" by simp
    with python_marker_border [OF us(1) u(1) n u(2)] show ?thesis by simp
  qed
next
  assume "starts_with ''```python'' u"
  then show "starts_with ''```python'' (u @ v)"
    by (simp only: starts_with_prefix prefix_prefix)
qed

lemma closing_marker_append:
  assumes u: "u \<noteq> []" "last u \<noteq> CHR 0x60"
  shows "(starts_with ''```'' (u @ v)
          \<and> (case drop 3 (u @ v) of [] \<Rightarrow> True | d # ds \<Rightarrow> d = CHR 0x0A))
       = (starts_with ''```'' u
          \<and> (case drop 3 u of [] \<Rightarrow> True | d # ds \<Rightarrow> d = CHR 0x0A))"
proof (cases "starts_with ''```'' u")
  case True
  then obtain r where r: "u = ''```'' @ r" using starts_with_decompose by blast
  with u have "r \<noteq> []" by auto
  then obtain d ds where "r = d # ds" by (cases r) auto
  with r show ?thesis by simp
next
  case False
  have "\<not> starts_with ''```'' (u @ v)"
  proof
    assume "starts_with ''```'' (u @ v)"
    then have "prefix ''```'' (u @ v)" by (simp only: starts_with_prefix)
    with False obtain us where us: "''```'' = u @ us"
      by (auto simp: prefix_append starts_with_prefix)
    from u(1) have "last u \<in> set u" by simp
    also have "set u \<subseteq> set (u @ us)" by simp
    finally have "last u \<in> set ''```''" by (simp only: us)
    with u(2) show False by simp
  qed
  with False show ?thesis by simp
qed

lemma re_sub_fence_split:
  assumes v: "v = [] \<or> hd v = CHR 0x60"
  shows "u = [] \<or> last u \<noteq> CHR 0x60 \<Longrightarrow>
    re_sub_fence bol (u @ v)
      = re_sub_fence bol u @ re_sub_fence (if u = [] then bol else last u = CHR 0x0A) v"
proof (induction "length u" arbitrary: u bol rule: less_induct)
  case less
  from v have vs: "v = [] \<or> \<not> is_space (hd v)" using backquote_not_space by auto
  show ?case
  proof (cases u)
    case Nil
    then show ?thesis by (simp add: re_sub_fence.simps(1))
  next
    case (Cons c cs)
    then have ne: "u \<noteq> []" by simp
    with less.prems have lu: "last u \<noteq> CHR 0x60" by simp
    have sw9: "starts_with ''```python'' (u @ v) = starts_with ''```python'' u"
      using ne lu v by (rule starts_with_python_append)
    note sw3 = closing_marker_append [OF ne lu, of v]
    show ?thesis
    proof (cases "bol \<and> starts_with ''```python'' u")
      case True
      then have bol: "bol" by simp
      from True obtain rest where u: "u = ''```python'' @ rest"
        using starts_with_decompose by blast
      let ?tw = "takeWhile is_space rest"
      let ?b = "?tw \<noteq> [] \<and> last ?tw = CHR 0x0A"
      let ?u' = "dropWhile is_space rest"
      have len: "length ?u' < length u"
        using length_dropWhile_le [of is_space rest] by (simp add: u)
      have lr: "rest \<noteq> [] \<Longrightarrow> last rest = last u" by (simp add: u)
      have p: "?u' = [] \<or> last ?u' \<noteq> CHR 0x60"
      proof (cases "?u' = []")
        case True then show ?thesis by simp
      next
        case False
        then have "rest \<noteq> []" by auto
        with False lr lu last_dropWhile [of is_space rest] show ?thesis by simp
      qed
      have flag: "(if ?u' = [] then ?b else last ?u' = CHR 0x0A) = (last u = CHR 0x0A)"
      proof (cases "?u' = []")
        case True
        then have tw: "?tw = rest" by (metis append_Nil2 takeWhile_dropWhile_id)
        show ?thesis
        proof (cases "rest = []")
          case True then show ?thesis by (simp add: u)
        next
          case False
          with True lr show ?thesis unfolding tw by simp
        qed
      next
        case False
        then have "rest \<noteq> []" by auto
        with False lr last_dropWhile [of is_space rest]
        have "last ?u' = last u" by simp
        with False show ?thesis by (simp only: if_False)
      qed
      have "re_sub_fence bol (u @ v) = re_sub_fence True (''```python'' @ (rest @ v))"
        using bol by (simp add: u)
      also have "\<dots> = re_sub_fence ?b (?u' @ v)"
        by (simp only: re_sub_fence_open takeWhile_append_stop [where P = is_space, OF vs]
            dropWhile_append_stop [where P = is_space, OF vs])
      also have "\<dots> = re_sub_fence ?b ?u'
          @ re_sub_fence (if ?u' = [] then ?b else last ?u' = CHR 0x0A) v"
        using less.hyps [OF len p] .
      finally have main: "re_sub_fence bol (u @ v)
          = re_sub_fence ?b ?u' @ re_sub_fence (last u = CHR 0x0A) v"
        by (simp only: flag)
      have "re_sub_fence bol u = re_sub_fence ?b ?u'"
        using bol by (simp only: u re_sub_fence_open)
      with main ne show ?thesis by (simp only: if_False)
    next
      case no_open: False
      show ?thesis
      proof (cases "starts_with ''```'' u
          \<and> (case drop 3 u of [] \<Rightarrow> True | d # ds \<Rightarrow> d = CHR 0x0A)")
        case True
        then obtain r where u: "u = ''```'' @ r"
          using starts_with_decompose by blast
        with lu have rne: "r \<noteq> []" by auto
        with u have lr: "last r = last u" by simp
        from True u rne have hr: "hd r = CHR 0x0A" by (cases r) auto
        have len: "length r < length u" by (simp add: u)
        have "re_sub_fence bol (u @ v) = re_sub_fence bol (''```'' @ (r @ v))"
          by (simp add: u)
        also have "\<dots> = re_sub_fence False (r @ v)"
          using rne hr by (intro re_sub_fence_close_line) simp
        also have "\<dots> = re_sub_fence False r @ re_sub_fence (last u = CHR 0x0A) v"
          using less.hyps [OF len, of False] rne lr lu by simp
        finally have main: "re_sub_fence bol (u @ v)
            = re_sub_fence False r @ re_sub_fence (last u = CHR 0x0A) v" .
        have "re_sub_fence bol u = re_sub_fence False r"
          unfolding u using hr by (intro re_sub_fence_close_line) simp
        with main ne show ?thesis by (simp only: if_False)
      next
        case no_close: False
        have k1: "\<not> (bol \<and> starts_with ''```python'' (c # cs @ v))"
          using no_open sw9 by (simp add: Cons)
        have k2: "\<not> (starts_with ''```'' (c # cs @ v)
            \<and> (case drop 3 (c # cs @ v) of [] \<Rightarrow> True | d # ds \<Rightarrow> d = CHR 0x0A))"
          using no_close sw3 by (simp add: Cons)
        have k3: "\<not> (bol \<and> starts_with ''```python'' (c # cs))"
          using no_open by (simp add: Cons)
        have k4: "\<not> (starts_with ''```'' (c # cs)
            \<and> (case drop 3 (c # cs) of [] \<Rightarrow> True | d # ds \<Rightarrow> d = CHR 0x0A))"
          using no_close unfolding Cons .
        have q: "cs = [] \<or> last cs \<noteq> CHR 0x60" using lu Cons by auto
        have flag: "(if cs = [] then c = CHR 0x0A else last cs = CHR 0x0A)
            = (last u = CHR 0x0A)"
          by (simp add: Cons)
        have len: "length cs < length u" by (simp add: Cons)
        have "re_sub_fence bol (u @ v) = c # re_sub_fence (c = CHR 0x0A) (cs @ v)"
          using re_sub_fence_keep [OF k1 k2] by (simp add: Cons)
        also have "\<dots> = c # re_sub_fence (c = CHR 0x0A) cs
            @ re_sub_fence (if cs = [] then c = CHR 0x0A else last cs = CHR 0x0A) v"
          using less.hyps [OF len q, of "c = CHR 0x0A"] by simp
        finally have main: "re_sub_fence bol (u @ v)
            = c # re_sub_fence (c = CHR 0x0A) cs @ re_sub_fence (last u = CHR 0x0A) v"
          by (simp only: flag)
        have "re_sub_fence bol u = c # re_sub_fence (c = CHR 0x0A) cs"
          using re_sub_fence_keep [OF k3 k4] by (simp add: Cons)
        with main ne show ?thesis by (simp only: append_Cons if_False)
      qed
    qed
  qed
qed

text \<open>An opening marker that does not start a line is kept.\<close>

lemma re_sub_fence_python_kept:
  "re_sub_fence False (''```python'' @ rest) = ''```python'' @ re_sub_fence False rest"
proof -
  have 1: "re_sub_fence False (CHR 0x60 # CHR 0x60 # CHR 0x60 # ''python'' @ rest)
      = CHR 0x60 # re_sub_fence False (CHR 0x60 # CHR 0x60 # ''python'' @ rest)"
    by (subst re_sub_fence_keep) simp_all
  have 2: "re_sub_fence False (CHR 0x60 # CHR 0x60 # ''python'' @ rest)
      = CHR 0x60 # re_sub_fence False (CHR 0x60 # ''python'' @ rest)"
    by (subst re_sub_fence_keep) simp_all
  have 3: "re_sub_fence False (CHR 0x60 # ''python'' @ rest)
      = CHR 0x60 # re_sub_fence False (''python'' @ rest)"
    by (subst re_sub_fence_keep) simp_all
  have 4: "re_sub_fence False (''python'' @ rest) = ''python'' @ re_sub_fence False rest"
    by (subst re_sub_fence_skip_prefix) simp_all
  show ?thesis using 1 2 3 4 by simp
qed

text \<open>A marker with a capital letter is no opening marker, at the start of a line or
  elsewhere.\<close>

lemma re_sub_fence_capital_kept:
  "re_sub_fence bol (''```Python'' @ rest) = ''```Python'' @ re_sub_fence False rest"
proof -
  have "re_sub_fence bol (''```'' @ (''Python'' @ rest))
      = ''```'' @ re_sub_fence False (''Python'' @ rest)"
    by (rule re_sub_fence_other_marker) simp_all
  moreover have "re_sub_fence False (''Python'' @ rest) = ''Python'' @ re_sub_fence False rest"
    by (subst re_sub_fence_skip_prefix) simp_all
  ultimately show ?thesis by simp
qed

text \<open>The substitution of line 126 on a text with a marker in it, in terms of the text
  before the marker and the text after it.\<close>

lemma sub_open_marker:
  assumes "u = [] \<or> last u = CHR 0x0A"
  shows "re_sub_fence True (u @ ''```python'' @ rest)
    = re_sub_fence True u
      @ re_sub_fence (takeWhile is_space rest \<noteq> [] \<and> last (takeWhile is_space rest) = CHR 0x0A)
          (dropWhile is_space rest)"
proof -
  from assms have u: "u = [] \<or> last u \<noteq> CHR 0x60" by auto
  from assms have f: "(if u = [] then True else last u = CHR 0x0A) = True" by auto
  have "re_sub_fence True (u @ ''```python'' @ rest)
      = re_sub_fence True u
        @ re_sub_fence (if u = [] then True else last u = CHR 0x0A) (''```python'' @ rest)"
    using u by (intro re_sub_fence_split) simp
  then show ?thesis by (simp only: f re_sub_fence_open)
qed

lemma sub_inner_marker:
  assumes "u \<noteq> []" "last u \<noteq> CHR 0x0A" "last u \<noteq> CHR 0x60"
  shows "re_sub_fence True (u @ ''```python'' @ rest)
    = re_sub_fence True u @ ''```python'' @ re_sub_fence False rest"
proof -
  from assms have f: "(if u = [] then True else last u = CHR 0x0A) = False" by auto
  have "re_sub_fence True (u @ ''```python'' @ rest)
      = re_sub_fence True u
        @ re_sub_fence (if u = [] then True else last u = CHR 0x0A) (''```python'' @ rest)"
    using assms(3) by (intro re_sub_fence_split) simp_all
  then show ?thesis by (simp only: f re_sub_fence_python_kept)
qed

lemma sub_close_marker:
  assumes "u = [] \<or> last u \<noteq> CHR 0x60" "w = [] \<or> hd w = CHR 0x0A"
  shows "re_sub_fence True (u @ ''```'' @ w) = re_sub_fence True u @ re_sub_fence False w"
proof -
  have "re_sub_fence True (u @ ''```'' @ w)
      = re_sub_fence True u
        @ re_sub_fence (if u = [] then True else last u = CHR 0x0A) (''```'' @ w)"
    using assms(1) by (intro re_sub_fence_split) simp_all
  then show ?thesis by (simp only: re_sub_fence_close_line [OF assms(2)])
qed

lemma sub_other_marker:
  assumes "u = [] \<or> last u \<noteq> CHR 0x60"
    and "t \<noteq> []" "hd t \<noteq> CHR 0x60" "hd t \<noteq> CHR 0x0A" "\<not> starts_with ''python'' t"
  shows "re_sub_fence True (u @ ''```'' @ t)
    = re_sub_fence True u @ ''```'' @ re_sub_fence False t"
proof -
  have "re_sub_fence True (u @ ''```'' @ t)
      = re_sub_fence True u
        @ re_sub_fence (if u = [] then True else last u = CHR 0x0A) (''```'' @ t)"
    using assms(1) by (intro re_sub_fence_split) simp_all
  then show ?thesis by (simp only: re_sub_fence_other_marker [OF assms(2-5)])
qed

lemma sub_capital_marker:
  assumes "u = [] \<or> last u \<noteq> CHR 0x60"
  shows "re_sub_fence True (u @ ''```Python'' @ rest)
    = re_sub_fence True u @ ''```Python'' @ re_sub_fence False rest"
proof -
  have "re_sub_fence True (u @ ''```Python'' @ rest)
      = re_sub_fence True u
        @ re_sub_fence (if u = [] then True else last u = CHR 0x0A) (''```Python'' @ rest)"
    using assms(1) by (intro re_sub_fence_split) simp_all
  then show ?thesis by (simp only: re_sub_fence_capital_kept)
qed

text \<open>A fenced snippet after a line of other text: the fence goes, the line stays.\<close>

lemma clean_code_after_line:
  assumes nb: "\<forall>c \<in> set code. c \<noteq> CHR 0x60"
    and ne: "code \<noteq> []" and h: "\<not> is_space (hd code)" and l: "\<not> is_space (last code)"
    and ws: "\<forall>c \<in> set ws. is_space c"
    and pb: "\<forall>c \<in> set line. c \<noteq> CHR 0x60"
    and pn: "line \<noteq> []" and ph: "\<not> is_space (hd line)"
  shows "clean_code (line @ CHR 0x0A # ''```python'' @ ws @ code @ CHR 0x0A # ''```'')
    = line @ CHR 0x0A # code"
proof -
  let ?tail = "CHR 0x0A # ''```''"
  let ?u = "line @ [CHR 0x0A]"
  let ?rest = "ws @ code @ ?tail"
  let ?content = "?u @ ''```python'' @ ?rest"
  have "hd ?content = hd line" using pn by simp
  moreover have "last ?content = CHR 0x60" by simp
  ultimately have s: "strip ?content = ?content"
    using backquote_not_space ph by (intro strip_fixed) (simp only:, simp)
  have d: "dropWhile is_space ?rest = code @ ?tail"
  proof -
    have "dropWhile is_space ?rest = dropWhile is_space (code @ ?tail)"
      using ws by (intro dropWhile_append2) simp
    also have "\<dots> = code @ ?tail" using ne h by (rule dropWhile_stripped)
    finally show ?thesis .
  qed
  have a: "re_sub_fence True ?u = ?u"
    using pb by (intro re_sub_fence_no_backquote) simp
  have b: "re_sub_fence bol (code @ ?tail) = code @ [CHR 0x0A]" for bol
    using nb by (rule re_sub_fence_closing)
  have "re_sub_fence True ?content
      = re_sub_fence True ?u
        @ re_sub_fence
            (takeWhile is_space ?rest \<noteq> [] \<and> last (takeWhile is_space ?rest) = CHR 0x0A)
            (dropWhile is_space ?rest)"
    by (rule sub_open_marker) simp
  then have "re_sub_fence True ?content = ?u @ code @ [CHR 0x0A]"
    by (simp only: d a b)
  then have "clean_code ?content = strip (?u @ code @ [CHR 0x0A])"
    by (simp only: clean_code_def Let_def s)
  also have "?u @ code @ [CHR 0x0A] = (line @ CHR 0x0A # code) @ [CHR 0x0A]" by simp
  also have "strip \<dots> = line @ CHR 0x0A # code"
    using pn ph ne l by (intro strip_trailing_newline) simp_all
  finally show ?thesis by simp
qed

text \<open>
  Claim C8. On the trimmed completion text, line 126 removes the opening marker
  \<open>```python\<close>, written in lower case, wherever it starts a line, with all the
  whitespace after it, and the closing marker \<open>```\<close> wherever it ends a line and no
  backquote stands before it; the text before and the text after the marker are
  processed by the same substitution, and the result is trimmed. Where no backquote
  stands before it, an opening marker inside a line stays, and so does every \<open>```\<close>
  followed by a character that is neither a newline nor a backquote and does not begin
  the lower-case word, \<open>```Python\<close> included: the match is case-sensitive. A text
  without backquotes is only trimmed. So a snippet without backquotes that neither
  starts nor ends with whitespace comes back as it is from inside a \<open>```python\<close>
  fence, from inside a bare \<open>```\<close> fence and when no fence is there; after a line of
  other text the fence goes and the line stays.
\<close>

theorem clean_code_strips_fence:
  "(strip content = u @ ''```python'' @ rest \<and> (u = [] \<or> last u = CHR 0x0A) \<longrightarrow>
      clean_code content
        = strip (re_sub_fence True u
            @ re_sub_fence
                (takeWhile is_space rest \<noteq> [] \<and> last (takeWhile is_space rest) = CHR 0x0A)
                (dropWhile is_space rest)))
   \<and> (strip content = u @ ''```python'' @ rest
        \<and> u \<noteq> [] \<and> last u \<noteq> CHR 0x0A \<and> last u \<noteq> CHR 0x60 \<longrightarrow>
      clean_code content
        = strip (re_sub_fence True u @ ''```python'' @ re_sub_fence False rest))
   \<and> (strip content = u @ ''```'' @ w
        \<and> (u = [] \<or> last u \<noteq> CHR 0x60) \<and> (w = [] \<or> hd w = CHR 0x0A) \<longrightarrow>
      clean_code content = strip (re_sub_fence True u @ re_sub_fence False w))
   \<and> (strip content = u @ ''```'' @ t \<and> (u = [] \<or> last u \<noteq> CHR 0x60)
        \<and> t \<noteq> [] \<and> hd t \<noteq> CHR 0x60 \<and> hd t \<noteq> CHR 0x0A
        \<and> \<not> starts_with ''python'' t \<longrightarrow>
      clean_code content = strip (re_sub_fence True u @ ''```'' @ re_sub_fence False t))
   \<and> (strip content = u @ ''```Python'' @ rest \<and> (u = [] \<or> last u \<noteq> CHR 0x60) \<longrightarrow>
      clean_code content
        = strip (re_sub_fence True u @ ''```Python'' @ re_sub_fence False rest))
   \<and> ((\<forall>c \<in> set (strip content). c \<noteq> CHR 0x60) \<longrightarrow> clean_code content = strip content)
   \<and> ((\<forall>c \<in> set code. c \<noteq> CHR 0x60) \<and> code \<noteq> []
        \<and> \<not> is_space (hd code) \<and> \<not> is_space (last code) \<longrightarrow>
      ((\<forall>c \<in> set ws. is_space c) \<longrightarrow>
         clean_code (''```python'' @ ws @ code @ CHR 0x0A # ''```'') = code)
      \<and> clean_code (''```'' @ CHR 0x0A # code @ CHR 0x0A # ''```'') = code
      \<and> clean_code code = code
      \<and> ((\<forall>c \<in> set ws. is_space c) \<and> (\<forall>c \<in> set line. c \<noteq> CHR 0x60)
           \<and> line \<noteq> [] \<and> \<not> is_space (hd line) \<longrightarrow>
         clean_code (line @ CHR 0x0A # ''```python'' @ ws @ code @ CHR 0x0A # ''```'')
           = line @ CHR 0x0A # code))"
proof (intro conjI impI; (elim conjE)?)
  assume "strip content = u @ ''```python'' @ rest" "u = [] \<or> last u = CHR 0x0A"
  then show "clean_code content
      = strip (re_sub_fence True u
          @ re_sub_fence
              (takeWhile is_space rest \<noteq> [] \<and> last (takeWhile is_space rest) = CHR 0x0A)
              (dropWhile is_space rest))"
    by (simp only: clean_code_def Let_def sub_open_marker)
next
  assume e: "strip content = u @ ''```python'' @ rest"
    and u: "u \<noteq> []" "last u \<noteq> CHR 0x0A" "last u \<noteq> CHR 0x60"
  show "clean_code content
      = strip (re_sub_fence True u @ ''```python'' @ re_sub_fence False rest)"
    by (simp only: clean_code_def Let_def e sub_inner_marker [OF u])
next
  assume e: "strip content = u @ ''```'' @ w"
    and u: "u = [] \<or> last u \<noteq> CHR 0x60" and w: "w = [] \<or> hd w = CHR 0x0A"
  show "clean_code content = strip (re_sub_fence True u @ re_sub_fence False w)"
    by (simp only: clean_code_def Let_def e sub_close_marker [OF u w])
next
  assume e: "strip content = u @ ''```'' @ t"
    and u: "u = [] \<or> last u \<noteq> CHR 0x60"
    and t: "t \<noteq> []" "hd t \<noteq> CHR 0x60" "hd t \<noteq> CHR 0x0A" "\<not> starts_with ''python'' t"
  show "clean_code content
      = strip (re_sub_fence True u @ ''```'' @ re_sub_fence False t)"
    by (simp only: clean_code_def Let_def e sub_other_marker [OF u t])
next
  assume e: "strip content = u @ ''```Python'' @ rest"
    and u: "u = [] \<or> last u \<noteq> CHR 0x60"
  show "clean_code content
      = strip (re_sub_fence True u @ ''```Python'' @ re_sub_fence False rest)"
    by (simp only: clean_code_def Let_def e sub_capital_marker [OF u])
next
  assume "\<forall>c \<in> set (strip content). c \<noteq> CHR 0x60"
  then have "re_sub_fence True (strip content) = strip content"
    by (rule re_sub_fence_no_backquote)
  then show "clean_code content = strip content"
    by (simp only: clean_code_def Let_def strip_idem)
next
  assume c: "\<forall>c \<in> set code. c \<noteq> CHR 0x60" "code \<noteq> []"
    "\<not> is_space (hd code)" "\<not> is_space (last code)"
  assume ws: "\<forall>c \<in> set ws. is_space c"
  show "clean_code (''```python'' @ ws @ code @ CHR 0x0A # ''```'') = code"
    using c ws by (rule clean_code_fenced)
next
  assume c: "\<forall>c \<in> set code. c \<noteq> CHR 0x60" "code \<noteq> []"
    "\<not> is_space (hd code)" "\<not> is_space (last code)"
  show "clean_code (''```'' @ CHR 0x0A # code @ CHR 0x0A # ''```'') = code"
    using c by (rule clean_code_bare_fence)
next
  assume c: "\<forall>c \<in> set code. c \<noteq> CHR 0x60" "code \<noteq> []"
    "\<not> is_space (hd code)" "\<not> is_space (last code)"
  show "clean_code code = code"
    using c by (rule clean_code_unfenced)
next
  assume c: "\<forall>c \<in> set code. c \<noteq> CHR 0x60" "code \<noteq> []"
    "\<not> is_space (hd code)" "\<not> is_space (last code)"
  assume l: "\<forall>c \<in> set ws. is_space c" "\<forall>c \<in> set line. c \<noteq> CHR 0x60"
    "line \<noteq> []" "\<not> is_space (hd line)"
  show "clean_code (line @ CHR 0x0A # ''```python'' @ ws @ code @ CHR 0x0A # ''```'')
      = line @ CHR 0x0A # code"
    using c l by (rule clean_code_after_line)
qed

theorem clean_code_strips_fence_witness:
  "clean_code ''```python\<newline>a = 1\<newline>```\<newline>```python\<newline>b = 2\<newline>```'' = ''a = 1\<newline>\<newline>b = 2''
   \<and> clean_code ''see ```python'' = ''see ```python''
   \<and> clean_code ''result = 1```'' = ''result = 1''
   \<and> clean_code ''```PYTHON\<newline>x = 2\<newline>```'' = ''```PYTHON\<newline>x = 2''
   \<and> clean_code ''```Python x = 3'' = ''```Python x = 3''
   \<and> clean_code '' result = 1 '' = ''result = 1''
   \<and> clean_code ''```python\<newline>result = 1\<newline>```'' = ''result = 1''
   \<and> clean_code ''```\<newline>result = 1\<newline>```'' = ''result = 1''
   \<and> clean_code ''result = 1'' = ''result = 1''
   \<and> clean_code ''Here is the code:\<newline>```python\<newline>result = 1\<newline>```''
       = ''Here is the code:\<newline>result = 1''"
proof -
  have a: "clean_code ''```python\<newline>a = 1\<newline>```\<newline>```python\<newline>b = 2\<newline>```'' = ''a = 1\<newline>\<newline>b = 2''"
  proof -
    have "strip ''```python\<newline>a = 1\<newline>```\<newline>```python\<newline>b = 2\<newline>```''
          = ''```python\<newline>a = 1\<newline>```\<newline>'' @ ''```python'' @ ''\<newline>b = 2\<newline>```''
        \<and> (''```python\<newline>a = 1\<newline>```\<newline>'' = []
             \<or> last ''```python\<newline>a = 1\<newline>```\<newline>'' = CHR 0x0A)"
      by code_simp
    from this clean_code_strips_fence
      [of "''```python\<newline>a = 1\<newline>```\<newline>```python\<newline>b = 2\<newline>```''"
        "''```python\<newline>a = 1\<newline>```\<newline>''" "''\<newline>b = 2\<newline>```''", THEN conjunct1]
    have "clean_code ''```python\<newline>a = 1\<newline>```\<newline>```python\<newline>b = 2\<newline>```''
        = strip (re_sub_fence True ''```python\<newline>a = 1\<newline>```\<newline>''
            @ re_sub_fence
                (takeWhile is_space ''\<newline>b = 2\<newline>```'' \<noteq> []
                  \<and> last (takeWhile is_space ''\<newline>b = 2\<newline>```'') = CHR 0x0A)
                (dropWhile is_space ''\<newline>b = 2\<newline>```''))"
      by (rule rev_mp)
    also have "\<dots> = ''a = 1\<newline>\<newline>b = 2''" by code_simp
    finally show ?thesis .
  qed
  have b: "clean_code ''see ```python'' = ''see ```python''"
  proof -
    have "strip ''see ```python'' = ''see '' @ ''```python'' @ []
        \<and> ''see '' \<noteq> [] \<and> last ''see '' \<noteq> CHR 0x0A \<and> last ''see '' \<noteq> CHR 0x60"
      by code_simp
    from this clean_code_strips_fence
      [of "''see ```python''" "''see ''" "[]", THEN conjunct2, THEN conjunct1]
    have "clean_code ''see ```python''
        = strip (re_sub_fence True ''see '' @ ''```python'' @ re_sub_fence False [])"
      by (rule rev_mp)
    also have "\<dots> = ''see ```python''" by code_simp
    finally show ?thesis .
  qed
  have c: "clean_code ''result = 1```'' = ''result = 1''"
  proof -
    have "strip ''result = 1```'' = ''result = 1'' @ ''```'' @ []
        \<and> (''result = 1'' = [] \<or> last ''result = 1'' \<noteq> CHR 0x60)
        \<and> (([] :: string) = [] \<or> hd ([] :: string) = CHR 0x0A)"
      by code_simp
    from this clean_code_strips_fence
      [of "''result = 1```''" "''result = 1''" _ "[]",
        THEN conjunct2, THEN conjunct2, THEN conjunct1]
    have "clean_code ''result = 1```''
        = strip (re_sub_fence True ''result = 1'' @ re_sub_fence False [])"
      by (rule rev_mp)
    also have "\<dots> = ''result = 1''" by code_simp
    finally show ?thesis .
  qed
  have d: "clean_code ''```PYTHON\<newline>x = 2\<newline>```'' = ''```PYTHON\<newline>x = 2''"
  proof -
    have "strip ''```PYTHON\<newline>x = 2\<newline>```'' = [] @ ''```'' @ ''PYTHON\<newline>x = 2\<newline>```''
        \<and> (([] :: string) = [] \<or> last ([] :: string) \<noteq> CHR 0x60)
        \<and> ''PYTHON\<newline>x = 2\<newline>```'' \<noteq> []
        \<and> hd ''PYTHON\<newline>x = 2\<newline>```'' \<noteq> CHR 0x60
        \<and> hd ''PYTHON\<newline>x = 2\<newline>```'' \<noteq> CHR 0x0A
        \<and> \<not> starts_with ''python'' ''PYTHON\<newline>x = 2\<newline>```''"
      by code_simp
    from this clean_code_strips_fence
      [of "''```PYTHON\<newline>x = 2\<newline>```''" "[]" _ _ "''PYTHON\<newline>x = 2\<newline>```''",
        THEN conjunct2, THEN conjunct2, THEN conjunct2, THEN conjunct1]
    have "clean_code ''```PYTHON\<newline>x = 2\<newline>```''
        = strip (re_sub_fence True [] @ ''```'' @ re_sub_fence False ''PYTHON\<newline>x = 2\<newline>```'')"
      by (rule rev_mp)
    also have "\<dots> = ''```PYTHON\<newline>x = 2''" by code_simp
    finally show ?thesis .
  qed
  have e: "clean_code ''```Python x = 3'' = ''```Python x = 3''"
  proof -
    have "strip ''```Python x = 3'' = [] @ ''```Python'' @ '' x = 3''
        \<and> (([] :: string) = [] \<or> last ([] :: string) \<noteq> CHR 0x60)"
      by code_simp
    from this clean_code_strips_fence
      [of "''```Python x = 3''" "[]" "'' x = 3''",
        THEN conjunct2, THEN conjunct2, THEN conjunct2, THEN conjunct2, THEN conjunct1]
    have "clean_code ''```Python x = 3''
        = strip (re_sub_fence True [] @ ''```Python'' @ re_sub_fence False '' x = 3'')"
      by (rule rev_mp)
    also have "\<dots> = ''```Python x = 3''" by code_simp
    finally show ?thesis .
  qed
  have f: "clean_code '' result = 1 '' = ''result = 1''"
  proof -
    have "\<forall>c \<in> set (strip '' result = 1 ''). c \<noteq> CHR 0x60" by code_simp
    from this clean_code_strips_fence
      [of "'' result = 1 ''", THEN conjunct2, THEN conjunct2, THEN conjunct2,
        THEN conjunct2, THEN conjunct2, THEN conjunct1]
    have "clean_code '' result = 1 '' = strip '' result = 1 ''"
      by (rule rev_mp)
    also have "\<dots> = ''result = 1''" by code_simp
    finally show ?thesis .
  qed
  have code: "(\<forall>c \<in> set ''result = 1''. c \<noteq> CHR 0x60) \<and> ''result = 1'' \<noteq> []
      \<and> \<not> is_space (hd ''result = 1'') \<and> \<not> is_space (last ''result = 1'')"
    by code_simp
  have ws: "\<forall>c \<in> set [CHR 0x0A]. is_space c" by code_simp
  have line: "(\<forall>c \<in> set [CHR 0x0A]. is_space c)
      \<and> (\<forall>c \<in> set ''Here is the code:''. c \<noteq> CHR 0x60)
      \<and> ''Here is the code:'' \<noteq> [] \<and> \<not> is_space (hd ''Here is the code:'')"
    by code_simp
  from code clean_code_strips_fence
    [of _ _ _ _ _ "''result = 1''" "[CHR 0x0A]" "''Here is the code:''",
      THEN conjunct2, THEN conjunct2, THEN conjunct2,
      THEN conjunct2, THEN conjunct2, THEN conjunct2]
  have g: "((\<forall>c \<in> set [CHR 0x0A]. is_space c) \<longrightarrow>
         clean_code (''```python'' @ [CHR 0x0A] @ ''result = 1'' @ CHR 0x0A # ''```'')
           = ''result = 1'')
      \<and> clean_code (''```'' @ CHR 0x0A # ''result = 1'' @ CHR 0x0A # ''```'') = ''result = 1''
      \<and> clean_code ''result = 1'' = ''result = 1''
      \<and> ((\<forall>c \<in> set [CHR 0x0A]. is_space c)
           \<and> (\<forall>c \<in> set ''Here is the code:''. c \<noteq> CHR 0x60)
           \<and> ''Here is the code:'' \<noteq> [] \<and> \<not> is_space (hd ''Here is the code:'') \<longrightarrow>
         clean_code (''Here is the code:'' @ CHR 0x0A # ''```python'' @ [CHR 0x0A]
             @ ''result = 1'' @ CHR 0x0A # ''```'')
           = ''Here is the code:'' @ CHR 0x0A # ''result = 1'')"
    by (rule rev_mp)
  from ws g [THEN conjunct1]
  have g1: "clean_code (''```python'' @ [CHR 0x0A] @ ''result = 1'' @ CHR 0x0A # ''```'')
      = ''result = 1''"
    by (rule rev_mp)
  note g2 = g [THEN conjunct2, THEN conjunct1]
  note g3 = g [THEN conjunct2, THEN conjunct2, THEN conjunct1]
  from line g [THEN conjunct2, THEN conjunct2, THEN conjunct2]
  have g4: "clean_code (''Here is the code:'' @ CHR 0x0A # ''```python'' @ [CHR 0x0A]
        @ ''result = 1'' @ CHR 0x0A # ''```'')
      = ''Here is the code:'' @ CHR 0x0A # ''result = 1''"
    by (rule rev_mp)
  show ?thesis
    using a b c d e f g1 g2 g3 g4
    by (simp only: append_Cons append_Nil simp_thms)
qed

text \<open>An opening marker written \<open>```Python\<close> stays in the text; the same text with the
  marker in lower case is cleaned.\<close>

theorem clean_code_case_counterexample:
  "clean_code ''```Python\<newline>result = 1\<newline>```'' = ''```Python\<newline>result = 1''
   \<and> clean_code ''```python\<newline>result = 1\<newline>```'' = ''result = 1''"
  by code_simp

section \<open>The query engine\<close>

lemma except_Exception_simps [simp]:
  "except_Exception (Inr r) = Inr r"
  "is_Exception e \<Longrightarrow> except_Exception (Inl e) = Inr (Some (agent_error_prefix @ str_of e))"
  "\<not> is_Exception e \<Longrightarrow> except_Exception (Inl e) = Inl e"
  by (simp_all add: except_Exception_def)

lemma none_strip_error_Exception [simp]: "is_Exception none_strip_error"
  by (simp add: none_strip_error_def)

lemma agent_body_raises_Exception:
  assumes "\<forall>p e. llm_code p = Inl e \<longrightarrow> is_Exception e"
    and "\<forall>c ns e. py_exec c ns = Inl e \<longrightarrow> is_Exception e"
    and "\<forall>v e. py_format v = Inl e \<longrightarrow> is_Exception e"
    and "\<forall>p e. llm_summary p = Inl e \<longrightarrow> is_Exception e"
    and "agent_body llm_code py_exec py_format llm_summary question deals_df wo_df = Inl e"
  shows "is_Exception e"
  using assms(5) unfolding agent_body_def
  by (auto dest!: bind_err_eq_Inl split: option.splits
      dest: assms(1)[rule_format] assms(2)[rule_format] assms(3)[rule_format] assms(4)[rule_format])

lemma agent_body_returns_summary:
  assumes "agent_body llm_code py_exec py_format llm_summary question deals_df wo_df = Inr r"
  shows "\<exists>p. llm_summary p = Inr r"
  using assms unfolding agent_body_def
  by (auto dest!: bind_err_eq_Inr)

lemma run_bi_agent_returns:
  assumes "\<forall>p e. llm_code p = Inl e \<longrightarrow> is_Exception e"
    and "\<forall>c ns e. py_exec c ns = Inl e \<longrightarrow> is_Exception e"
    and "\<forall>v e. py_format v = Inl e \<longrightarrow> is_Exception e"
    and "\<forall>p e. llm_summary p = Inl e \<longrightarrow> is_Exception e"
  shows "\<exists>r. run_bi_agent llm_code py_exec py_format llm_summary question deals_df wo_df = Inr r"
proof (cases "agent_body llm_code py_exec py_format llm_summary question deals_df wo_df")
  case (Inl e)
  with assms have "is_Exception e" by (intro agent_body_raises_Exception)
  with Inl show ?thesis by (simp add: run_bi_agent_def)
next
  case (Inr r)
  then show ?thesis by (simp add: run_bi_agent_def)
qed

lemma run_bi_agent_returns_string:
  assumes "\<forall>p e. llm_code p = Inl e \<longrightarrow> is_Exception e"
    and "\<forall>c ns e. py_exec c ns = Inl e \<longrightarrow> is_Exception e"
    and "\<forall>v e. py_format v = Inl e \<longrightarrow> is_Exception e"
    and "\<forall>p e. llm_summary p = Inl e \<longrightarrow> is_Exception e"
    and has_text: "\<forall>p. llm_summary p \<noteq> Inr None"
  shows "\<exists>s. run_bi_agent llm_code py_exec py_format llm_summary question deals_df wo_df
           = Inr (Some s)"
proof (cases "agent_body llm_code py_exec py_format llm_summary question deals_df wo_df")
  case (Inl e)
  with assms(1-4) have "is_Exception e" by (intro agent_body_raises_Exception)
  with Inl show ?thesis by (simp add: run_bi_agent_def)
next
  case (Inr r)
  then obtain p where "llm_summary p = Inr r" using agent_body_returns_summary by blast
  with has_text have "r \<noteq> None" by metis
  then obtain s where "r = Some s" by auto
  with Inr show ?thesis by (simp add: run_bi_agent_def)
qed

lemma error_message_not_narration:
  "\<not> prefix agent_error_prefix s \<Longrightarrow> agent_error_prefix @ m \<noteq> s"
  by auto

text \<open>
  Claim C7. The query engine raises no exception that is an instance of \<open>Exception\<close>:
  when every exception raised while it runs is such an instance, it returns, and what it
  returns is a string when the summary completion carries a text (it is \<open>None\<close> when the
  content of that completion is \<open>None\<close>). When the completion call for the code, the
  cleaning of its content, the execution of the snippet, the formatting of the result or
  the completion call for the summary raises an instance of \<open>Exception\<close>, the string
  returned is the prefix of line 146 followed by the message of the exception. When the
  snippet binds no \<open>result\<close>, the summary is asked for with the text
  \<open>No result returned\<close> in place of a result, and no exception arises from the missing
  name. When nothing raises, the value returned is the content of the summary. The
  prefixed message differs from every summary that does not itself begin with the
  prefix. An exception that is not an instance of \<open>Exception\<close> leaves the function.
\<close>

theorem query_engine_result:
  "(llm_code (code_prompt_of question deals_df wo_df) = Inl e \<and> is_Exception e \<longrightarrow>
      run_bi_agent llm_code py_exec py_format llm_summary question deals_df wo_df
        = Inr (Some (agent_error_prefix @ str_of e)))
   \<and> (llm_code (code_prompt_of question deals_df wo_df) = Inr None \<longrightarrow>
      run_bi_agent llm_code py_exec py_format llm_summary question deals_df wo_df
        = Inr (Some (agent_error_prefix @ str_of none_strip_error)))
   \<and> (llm_code (code_prompt_of question deals_df wo_df) = Inr (Some content)
        \<and> py_exec (clean_code content) (initial_vars deals_df wo_df) = Inl e \<and> is_Exception e \<longrightarrow>
      run_bi_agent llm_code py_exec py_format llm_summary question deals_df wo_df
        = Inr (Some (agent_error_prefix @ str_of e)))
   \<and> (llm_code (code_prompt_of question deals_df wo_df) = Inr (Some content)
        \<and> py_exec (clean_code content) (initial_vars deals_df wo_df) = Inr local_vars
        \<and> local_vars ''result'' = None \<longrightarrow>
      run_bi_agent llm_code py_exec py_format llm_summary question deals_df wo_df
        = except_Exception (llm_summary \<lparr>sp_question = question, sp_result = ''No result returned''\<rparr>))
   \<and> (llm_code (code_prompt_of question deals_df wo_df) = Inr (Some content)
        \<and> py_exec (clean_code content) (initial_vars deals_df wo_df) = Inr local_vars
        \<and> local_vars ''result'' = Some raw_val
        \<and> py_format raw_val = Inl e \<and> is_Exception e \<longrightarrow>
      run_bi_agent llm_code py_exec py_format llm_summary question deals_df wo_df
        = Inr (Some (agent_error_prefix @ str_of e)))
   \<and> (llm_code (code_prompt_of question deals_df wo_df) = Inr (Some content)
        \<and> py_exec (clean_code content) (initial_vars deals_df wo_df) = Inr local_vars
        \<and> local_vars ''result'' = Some raw_val
        \<and> py_format raw_val = Inr text \<longrightarrow>
      run_bi_agent llm_code py_exec py_format llm_summary question deals_df wo_df
        = except_Exception (llm_summary \<lparr>sp_question = question, sp_result = text\<rparr>))
   \<and> (is_Exception e \<longrightarrow> except_Exception (Inl e) = Inr (Some (agent_error_prefix @ str_of e)))
   \<and> except_Exception (Inr r) = Inr r
   \<and> ((\<forall>p e. llm_code p = Inl e \<longrightarrow> is_Exception e)
        \<and> (\<forall>c ns e. py_exec c ns = Inl e \<longrightarrow> is_Exception e)
        \<and> (\<forall>v e. py_format v = Inl e \<longrightarrow> is_Exception e)
        \<and> (\<forall>p e. llm_summary p = Inl e \<longrightarrow> is_Exception e) \<longrightarrow>
       (\<exists>r. run_bi_agent llm_code py_exec py_format llm_summary question deals_df wo_df = Inr r)
       \<and> ((\<forall>p. llm_summary p \<noteq> Inr None) \<longrightarrow>
            (\<exists>s. run_bi_agent llm_code py_exec py_format llm_summary question deals_df wo_df
                   = Inr (Some s))))
   \<and> (\<not> prefix agent_error_prefix narration \<longrightarrow> agent_error_prefix @ str_of e \<noteq> narration)
   \<and> (agent_body llm_code py_exec py_format llm_summary question deals_df wo_df = Inl e
          \<and> \<not> is_Exception e \<longrightarrow>
        run_bi_agent llm_code py_exec py_format llm_summary question deals_df wo_df = Inl e)"
proof -
  have r: "(\<forall>p e. llm_code p = Inl e \<longrightarrow> is_Exception e)
        \<and> (\<forall>c ns e. py_exec c ns = Inl e \<longrightarrow> is_Exception e)
        \<and> (\<forall>v e. py_format v = Inl e \<longrightarrow> is_Exception e)
        \<and> (\<forall>p e. llm_summary p = Inl e \<longrightarrow> is_Exception e) \<longrightarrow>
       (\<exists>r. run_bi_agent llm_code py_exec py_format llm_summary question deals_df wo_df = Inr r)
       \<and> ((\<forall>p. llm_summary p \<noteq> Inr None) \<longrightarrow>
            (\<exists>s. run_bi_agent llm_code py_exec py_format llm_summary question deals_df wo_df
                   = Inr (Some s)))"
    using run_bi_agent_returns [of llm_code py_exec py_format llm_summary]
      run_bi_agent_returns_string [of llm_code py_exec py_format llm_summary]
    by blast
  have d: "\<not> prefix agent_error_prefix narration \<longrightarrow> agent_error_prefix @ str_of e \<noteq> narration"
    using error_message_not_narration by blast
  show ?thesis
    by (intro conjI r d) (simp_all add: run_bi_agent_def agent_body_def)
qed

theorem query_engine_result_witness:
  "run_bi_agent (\<lambda>p. Inr (Some ''x = 1'')) (\<lambda>c ns. Inr (ns(''x'' \<mapsto> PyObj ''1'')))
      (\<lambda>v. Inr ''1'') (\<lambda>p. Inr (Some (sp_result p))) ''What is total deal value?''
      empty_frame empty_frame
     = Inr (Some ''No result returned'')
   \<and> run_bi_agent (\<lambda>p. Inr (Some ''x = 1'')) (\<lambda>c ns. Inl (Exc True ''division by zero''))
      (\<lambda>v. Inr ''1'') (\<lambda>p. Inr (Some (sp_result p))) ''What is total deal value?''
      empty_frame empty_frame
     = Inr (Some (agent_error_prefix @ ''division by zero''))"
proof -
  let ?q = "''What is total deal value?''"
  have n: "((initial_vars empty_frame empty_frame)(''x'' \<mapsto> PyObj ''1'')) ''result'' = None"
    by (simp add: initial_vars_def)
  note t1 = query_engine_result [where llm_code = "\<lambda>p. Inr (Some ''x = 1'')"
      and py_exec = "\<lambda>c ns. Inr (ns(''x'' \<mapsto> PyObj ''1''))"
      and py_format = "\<lambda>v. Inr ''1''" and llm_summary = "\<lambda>p. Inr (Some (sp_result p))"
      and question = ?q and deals_df = empty_frame and wo_df = empty_frame
      and content = "''x = 1''"
      and local_vars = "(initial_vars empty_frame empty_frame)(''x'' \<mapsto> PyObj ''1'')"]
  from t1 n have a: "run_bi_agent (\<lambda>p. Inr (Some ''x = 1'')) (\<lambda>c ns. Inr (ns(''x'' \<mapsto> PyObj ''1'')))
      (\<lambda>v. Inr ''1'') (\<lambda>p. Inr (Some (sp_result p))) ?q empty_frame empty_frame
     = Inr (Some ''No result returned'')"
    by simp
  note t2 = query_engine_result [where llm_code = "\<lambda>p. Inr (Some ''x = 1'')"
      and py_exec = "\<lambda>c ns. Inl (Exc True ''division by zero'')"
      and py_format = "\<lambda>v. Inr ''1''" and llm_summary = "\<lambda>p. Inr (Some (sp_result p))"
      and question = ?q and deals_df = empty_frame and wo_df = empty_frame
      and content = "''x = 1''" and e = "Exc True ''division by zero''"]
  from t2 have b: "run_bi_agent (\<lambda>p. Inr (Some ''x = 1'')) (\<lambda>c ns. Inl (Exc True ''division by zero''))
      (\<lambda>v. Inr ''1'') (\<lambda>p. Inr (Some (sp_result p))) ?q empty_frame empty_frame
     = Inr (Some (agent_error_prefix @ ''division by zero''))"
    by simp
  from a b show ?thesis by (rule conjI)
qed

text \<open>
  Three runs. A snippet that raises \<open>SystemExit\<close>: the exception is not an instance of
  \<open>Exception\<close> and leaves the query engine. A summary completion whose content is
  \<open>None\<close>: the engine returns \<open>None\<close>, not a string. A summary whose text begins with
  the prefix of line 146: the engine returns the very string it returns when the snippet
  raises an exception with that message.
\<close>

theorem query_engine_raises_counterexample:
  "run_bi_agent (\<lambda>p. Inr (Some ''raise SystemExit(1)'')) (\<lambda>c ns. Inl (Exc False ''1''))
      (\<lambda>v. Inr ''1'') (\<lambda>p. Inr (Some (sp_result p))) ''What is total deal value?''
      empty_frame empty_frame
     = Inl (Exc False ''1'')
   \<and> run_bi_agent (\<lambda>p. Inr (Some ''result = 1'')) (\<lambda>c ns. Inr (ns(''result'' \<mapsto> PyObj ''1'')))
      (\<lambda>v. Inr ''1'') (\<lambda>p. Inr None) ''What is total deal value?'' empty_frame empty_frame
     = Inr None
   \<and> run_bi_agent (\<lambda>p. Inr (Some ''result = 1'')) (\<lambda>c ns. Inr (ns(''result'' \<mapsto> PyObj ''1'')))
      (\<lambda>v. Inr ''1'') (\<lambda>p. Inr (Some (agent_error_prefix @ ''division by zero'')))
      ''What is total deal value?'' empty_frame empty_frame
     = run_bi_agent (\<lambda>p. Inr (Some ''result = 1 / 0'')) (\<lambda>c ns. Inl (Exc True ''division by zero''))
      (\<lambda>v. Inr ''1'') (\<lambda>p. Inr (Some ''The total is 1.'')) ''What is total deal value?''
      empty_frame empty_frame"
  by (simp add: run_bi_agent_def agent_body_def)

section \<open>The cells of the returned table\<close>

lemma columns_set_column: "columns (set_column col f df) = columns df"
  by (auto simp: columns_def set_column_def comp_def split: prod.splits)

lemma nrows_set_column: "nrows (set_column col f df) = nrows df"
  by (simp add: set_column_def)

lemma coerce_loop_unique:
  "coerce_loop f64 py_str ls df = Inr df' \<Longrightarrow>
   \<forall>l \<in> set ls. numeric_col l \<longrightarrow> count_list (columns df) l = 1"
proof (induction ls arbitrary: df)
  case Nil then show ?case by simp
next
  case (Cons col rest)
  show ?case
  proof (cases "numeric_col col")
    case False
    with Cons.prems have "coerce_loop f64 py_str rest df = Inr df'"
      by (auto simp: numeric_col_def split: if_splits)
    from Cons.IH [OF this] False show ?thesis by auto
  next
    case True
    with Cons.prems have one: "col \<in> set (columns df)" "\<not> 1 < count_list (columns df) col"
      and rec: "coerce_loop f64 py_str rest (set_column col (coerce_column f64 py_str) df) = Inr df'"
      by (auto simp: numeric_col_def split: if_splits)
    from one have "count_list (columns df) col = 1"
      by (metis count_list_0_iff less_one linorder_neqE_nat)
    with Cons.IH [OF rec] show ?thesis by (auto simp: columns_set_column)
  qed
qed

lemma coerce_loop_result:
  "coerce_loop f64 py_str ls df = Inr df' \<Longrightarrow>
   nrows df' = nrows df
   \<and> cols df' = map (\<lambda>(l, vals).
         (l, ((coerce_column f64 py_str) ^^ (if numeric_col l then count_list ls l else 0)) vals))
       (cols df)"
proof (induction ls arbitrary: df)
  case Nil
  then have "df' = df" by simp
  moreover have "map (\<lambda>(l, vals).
         (l, ((coerce_column f64 py_str) ^^ (if numeric_col l then count_list [] l else 0)) vals))
       (cols df) = cols df"
    by (rule map_idI) auto
  ultimately show ?case by simp
next
  case (Cons col rest)
  show ?case
  proof (cases "numeric_col col")
    case False
    with Cons.prems have "coerce_loop f64 py_str rest df = Inr df'"
      by (auto simp: numeric_col_def split: if_splits)
    from Cons.IH [OF this] have
      n: "nrows df' = nrows df" and
      c: "cols df' = map (\<lambda>(l, vals).
         (l, ((coerce_column f64 py_str) ^^ (if numeric_col l then count_list rest l else 0)) vals))
       (cols df)"
      by simp_all
    have "map (\<lambda>(l, vals).
         (l, ((coerce_column f64 py_str) ^^ (if numeric_col l then count_list rest l else 0)) vals))
       (cols df)
      = map (\<lambda>(l, vals).
         (l, ((coerce_column f64 py_str) ^^ (if numeric_col l then count_list (col # rest) l else 0)) vals))
       (cols df)"
      by (rule map_cong [OF refl]) (use False in auto)
    with n c show ?thesis by simp
  next
    case True
    let ?df1 = "set_column col (coerce_column f64 py_str) df"
    from True Cons.prems have rec: "coerce_loop f64 py_str rest ?df1 = Inr df'"
      by (auto simp: numeric_col_def split: if_splits)
    from Cons.IH [OF rec] have
      n: "nrows df' = nrows ?df1" and
      c: "cols df' = map (\<lambda>(l, vals).
         (l, ((coerce_column f64 py_str) ^^ (if numeric_col l then count_list rest l else 0)) vals))
       (cols ?df1)"
      by simp_all
    have "map (\<lambda>(l, vals).
         (l, ((coerce_column f64 py_str) ^^ (if numeric_col l then count_list rest l else 0)) vals))
       (cols ?df1)
      = map (\<lambda>(l, vals).
         (l, ((coerce_column f64 py_str) ^^ (if numeric_col l then count_list (col # rest) l else 0)) vals))
       (cols df)"
    proof -
      have "cols ?df1 = map (\<lambda>(l, vals). if l = col then (l, coerce_column f64 py_str vals)
          else (l, vals)) (cols df)"
        by (simp add: set_column_def)
      then show ?thesis
        by (simp only: map_map) (rule map_cong [OF refl], auto simp: funpow_swap1 True)
    qed
    with n c show ?thesis by (simp add: nrows_set_column)
  qed
qed

lemma coerce_loop_columns:
  assumes "coerce_loop f64 py_str (columns df) df = Inr df'"
  shows "nrows df' = nrows df
   \<and> cols df' = map (\<lambda>(l, vals). (l, if numeric_col l then coerce_column f64 py_str vals else vals))
       (cols df)"
proof -
  have u: "\<forall>l \<in> set (columns df). numeric_col l \<longrightarrow> count_list (columns df) l = 1"
    using assms by (rule coerce_loop_unique)
  have "map (\<lambda>(l, vals).
         (l, ((coerce_column f64 py_str) ^^ (if numeric_col l then count_list (columns df) l else 0)) vals))
       (cols df)
     = map (\<lambda>(l, vals). (l, if numeric_col l then coerce_column f64 py_str vals else vals)) (cols df)"
  proof (rule map_cong [OF refl])
    fix x assume x: "x \<in> set (cols df)"
    obtain l vals where lv: "x = (l, vals)" by (cases x)
    with x have "l \<in> set (columns df)" by (force simp: columns_def)
    with u have "numeric_col l \<longrightarrow> count_list (columns df) l = 1" by blast
    then show "(case x of (l, vals) \<Rightarrow>
         (l, ((coerce_column f64 py_str) ^^ (if numeric_col l then count_list (columns df) l else 0)) vals))
      = (case x of (l, vals) \<Rightarrow> (l, if numeric_col l then coerce_column f64 py_str vals else vals))"
      by (auto simp: lv)
  qed
  with coerce_loop_result [OF assms] show ?thesis by simp
qed

lemma coerce_column_map:
  "coerce_column f64 py_str vals =
     map (\<lambda>v. Num (let s = filter (\<lambda>c. is_digit c \<or> c = CHR ''.'') (astype_str py_str v);
                      x = (case parse_decimal s of None \<Rightarrow> 0 | Some q \<Rightarrow> f64 q)
                  in if x > 1000000000000 then 0 else x)) vals"
  by (auto simp: coerce_column_def strip_non_numeric_filter to_numeric_def fillna0_def
      zero_above_ceiling_def Let_def split: option.splits)

lemma fetch_and_clean_success:
  assumes "fetch_and_clean f64 py_str up = Inr (None, df)"
  shows "\<exists>data board_data parsed_rows.
      up = Body data
      \<and> bind_err (getitem data ''data'') (\<lambda>d. bind_err (getitem d ''boards'') getitem0)
          = Inr board_data
      \<and> flatten board_data = Inr parsed_rows
      \<and> nrows df = length parsed_rows
      \<and> cols df = map (\<lambda>(l, vals). (l, if numeric_col l then coerce_column f64 py_str vals else vals))
          (cols (sanitize_columns (DataFrame parsed_rows)))"
proof -
  from assms have b: "fetch_body f64 py_str up = Inr (None, df)"
    by (auto simp: fetch_and_clean_def split: sum.splits if_splits)
  then obtain data where up: "up = Body data"
    by (cases up) (simp_all add: fetch_body_def)
  from b up obtain has where "contains data ''errors'' = Inr has"
    by (auto simp: fetch_body_def dest!: bind_err_eq_Inr)
  with b up have "\<not> has"
    by (auto simp: fetch_body_def dest!: bind_err_eq_Inr)
  with b up \<open>contains data ''errors'' = Inr has\<close> obtain d boards board_data parsed_rows where
    nav: "getitem data ''data'' = Inr d" "getitem d ''boards'' = Inr boards"
      "getitem0 boards = Inr board_data"
    and fl: "flatten board_data = Inr parsed_rows"
    and loop: "coerce_loop f64 py_str (columns (sanitize_columns (DataFrame parsed_rows)))
        (sanitize_columns (DataFrame parsed_rows)) = Inr df"
    by (auto simp: fetch_body_def Let_def dest!: bind_err_eq_Inr)
  from nav have "bind_err (getitem data ''data'') (\<lambda>d. bind_err (getitem d ''boards'') getitem0)
      = Inr board_data"
    by simp
  moreover have "nrows (sanitize_columns (DataFrame parsed_rows)) = length parsed_rows"
    by (simp add: sanitize_columns_def DataFrame_nrows)
  ultimately show ?thesis
    using up fl coerce_loop_columns [OF loop] by auto
qed

text \<open>The pipeline on a board with one money column and one item.\<close>

lemma pipeline_single_cell:
  "fetch_and_clean f64 py_str
     (Body (response_json (board_json [(''numbers'', ''Deal Value ($)'')]
        [(''Deal 1'', [(''numbers'', v)])])))
   = Inr (None, \<lparr>nrows = 1, cols =
       [(''Item Name'', [Obj (JStr ''Deal 1'')]),
        (''Deal Value'', coerce_column f64 py_str [Obj v])]\<rparr>)"
proof -
  have lw: "lower ''Deal Value ($)'' = ''deal value ($)''" by code_simp
  have f: "flatten (board_json [(''numbers'', ''Deal Value ($)'')] [(''Deal 1'', [(''numbers'', v)])])
     = Inr [[(''Item Name'', JStr ''Deal 1''), (''Deal Value ($)'', v)]]"
    by (simp add: flatten_def board_json_def column_json_def item_json_def value_json_def lw)
  have d: "sanitize_columns (DataFrame [[(''Item Name'', JStr ''Deal 1''), (''Deal Value ($)'', v)]])
     = \<lparr>nrows = 1, cols = [(''Item Name'', [Obj (JStr ''Deal 1'')]), (''Deal Value'', [Obj v])]\<rparr>"
    by (simp add: DataFrame_def sanitize_columns_def sanitize_def strip_def is_word_def
        is_alnum_def is_space_def)
  have n: "\<not> is_money_col ''Item Name''" "is_money_col ''Deal Value''"
    "\<not> is_excluded ''Deal Value''"
    by code_simp+
  have cl: "columns \<lparr>nrows = 1, cols =
       [(''Item Name'', [Obj (JStr ''Deal 1'')]), (''Deal Value'', [Obj v])]\<rparr>
      = [''Item Name'', ''Deal Value'']"
    by (simp add: columns_def)
  have l: "coerce_loop f64 py_str [''Item Name'', ''Deal Value'']
      \<lparr>nrows = 1, cols = [(''Item Name'', [Obj (JStr ''Deal 1'')]), (''Deal Value'', [Obj v])]\<rparr>
     = Inr \<lparr>nrows = 1, cols =
       [(''Item Name'', [Obj (JStr ''Deal 1'')]),
        (''Deal Value'', coerce_column f64 py_str [Obj v])]\<rparr>"
    by (simp add: n columns_def set_column_def)
  have "fetch_body f64 py_str
     (Body (response_json (board_json [(''numbers'', ''Deal Value ($)'')]
        [(''Deal 1'', [(''numbers'', v)])])))
   = Inr (None, \<lparr>nrows = 1, cols =
       [(''Item Name'', [Obj (JStr ''Deal 1'')]),
        (''Deal Value'', coerce_column f64 py_str [Obj v])]\<rparr>)"
    by (simp only: fetch_body_response_json f bind_err_Inr Let_def d cl l)
  then show ?thesis by (rule fetch_and_clean_Inr)
qed

lemma coerce_dollar_text:
  "coerce_column f64 py_str [Obj (JStr ''$1,200.50'')] = [Num (zero_above_ceiling (f64 (2401 / 2)))]"
proof -
  have "strip_non_numeric ''$1,200.50'' = ''1200.50''"
    by (simp add: strip_non_numeric_def is_digit_def)
  moreover have "parse_decimal ''1200.50'' = Some (2401 / 2)"
    by (simp add: parse_decimal_def is_digit_def decimal_value_def digit_val_def)
  ultimately show ?thesis
    by (simp add: coerce_column_single astype_str_JStr to_numeric_def fillna0_def)
qed

text \<open>
  Claim C1. In every table the pipeline returns without an error report, the columns are
  those of the flattened rows under their sanitized titles, and every cell of a column
  classified as numeric holds the number obtained from the cell of the flattened row as
  follows: the characters other than digits and the decimal point are removed from its
  text, the rest is parsed as a number, a parse failure gives 0, and a result above
  \<open>10\<^sup>1\<^sup>2\<close> gives 0; the cells of every other column are left as they are. A board
  whose money column holds the raw text \<open>$1,200.50\<close> gives a table whose cell is 1200.5,
  the parser returning the representable value 1200.5 as it is.
\<close>

theorem money_cell_value:
  assumes "f64 (2401 / 2) = 2401 / 2"
  shows "(fetch_and_clean f64 py_str up = Inr (None, df) \<longrightarrow>
      (\<exists>data board_data parsed_rows.
          up = Body data
          \<and> bind_err (getitem data ''data'') (\<lambda>d. bind_err (getitem d ''boards'') getitem0)
              = Inr board_data
          \<and> flatten board_data = Inr parsed_rows
          \<and> nrows df = length parsed_rows
          \<and> cols df = map (\<lambda>(l, vals).
                (l, if numeric_col l
                    then map (\<lambda>v. Num (let s = filter (\<lambda>c. is_digit c \<or> c = CHR ''.'')
                                                  (astype_str py_str v);
                                            x = (case parse_decimal s of None \<Rightarrow> 0 | Some q \<Rightarrow> f64 q)
                                        in if x > 1000000000000 then 0 else x)) vals
                    else vals))
              (cols (sanitize_columns (DataFrame parsed_rows)))))
    \<and> fetch_and_clean f64 py_str
         (Body (response_json (board_json [(''numbers'', ''Deal Value ($)'')]
            [(''Deal 1'', [(''numbers'', JStr ''$1,200.50'')])])))
       = Inr (None, \<lparr>nrows = 1, cols =
           [(''Item Name'', [Obj (JStr ''Deal 1'')]), (''Deal Value'', [Num (2401 / 2)])]\<rparr>)
    \<and> length (coerce_column f64 py_str col) = length col
    \<and> (\<forall>i < length col. coerce_column f64 py_str col ! i =
          Num (let s = filter (\<lambda>c. is_digit c \<or> c = CHR ''.'') (astype_str py_str (col ! i));
                   x = (case parse_decimal s of None \<Rightarrow> 0 | Some q \<Rightarrow> f64 q)
               in if x > 1000000000000 then 0 else x))
    \<and> coerce_column f64 py_str [Obj (JStr ''$1,200.50'')] = [Num (2401 / 2)]"
proof -
  have a: "fetch_and_clean f64 py_str up = Inr (None, df) \<longrightarrow>
      (\<exists>data board_data parsed_rows.
          up = Body data
          \<and> bind_err (getitem data ''data'') (\<lambda>d. bind_err (getitem d ''boards'') getitem0)
              = Inr board_data
          \<and> flatten board_data = Inr parsed_rows
          \<and> nrows df = length parsed_rows
          \<and> cols df = map (\<lambda>(l, vals).
                (l, if numeric_col l
                    then map (\<lambda>v. Num (let s = filter (\<lambda>c. is_digit c \<or> c = CHR ''.'')
                                                  (astype_str py_str v);
                                            x = (case parse_decimal s of None \<Rightarrow> 0 | Some q \<Rightarrow> f64 q)
                                        in if x > 1000000000000 then 0 else x)) vals
                    else vals))
              (cols (sanitize_columns (DataFrame parsed_rows))))"
    using fetch_and_clean_success [of f64 py_str up df]
    by (simp only: coerce_column_map) blast
  have c: "coerce_column f64 py_str [Obj (JStr ''$1,200.50'')] = [Num (2401 / 2)]"
    using assms by (simp add: coerce_dollar_text zero_above_ceiling_def)
  have b: "fetch_and_clean f64 py_str
         (Body (response_json (board_json [(''numbers'', ''Deal Value ($)'')]
            [(''Deal 1'', [(''numbers'', JStr ''$1,200.50'')])])))
       = Inr (None, \<lparr>nrows = 1, cols =
           [(''Item Name'', [Obj (JStr ''Deal 1'')]), (''Deal Value'', [Num (2401 / 2)])]\<rparr>)"
    by (simp only: pipeline_single_cell c)
  have l: "length (coerce_column f64 py_str col) = length col"
    by (rule coerce_column_length)
  have n: "\<forall>i < length col. coerce_column f64 py_str col ! i =
          Num (let s = filter (\<lambda>c. is_digit c \<or> c = CHR ''.'') (astype_str py_str (col ! i));
                   x = (case parse_decimal s of None \<Rightarrow> 0 | Some q \<Rightarrow> f64 q)
               in if x > 1000000000000 then 0 else x)"
    by (simp add: coerce_column_map)
  show ?thesis by (intro conjI a b l n c)
qed

theorem money_cell_value_witness:
  "fetch_and_clean (\<lambda>q. q) (\<lambda>v. [])
     (Body (response_json (board_json [(''numbers'', ''Deal Value ($)'')]
        [(''Deal 1'', [(''numbers'', JStr ''$1,200.50'')])])))
   = Inr (None, \<lparr>nrows = 1, cols =
       [(''Item Name'', [Obj (JStr ''Deal 1'')]), (''Deal Value'', [Num (2401 / 2)])]\<rparr>)
   \<and> coerce_column (\<lambda>q. q) (\<lambda>v. []) [Obj (JStr ''$1,200.50'')] = [Num (2401 / 2)]"
proof -
  have h: "(\<lambda>q::rat. q) (2401 / 2) = 2401 / 2" by simp
  note t = money_cell_value [of "\<lambda>q. q" "\<lambda>v. []", OF h]
  from t [THEN conjunct2, THEN conjunct1]
    t [THEN conjunct2, THEN conjunct2, THEN conjunct2, THEN conjunct2]
  show ?thesis by (rule conjI)
qed

lemma point_not_digit: "\<not> is_digit CHR ''.''"
  by (simp add: is_digit_def)

lemma parse_decimal_point:
  assumes "list_all is_digit ip" "list_all is_digit fp" "ip \<noteq> [] \<or> fp \<noteq> []"
  shows "parse_decimal (ip @ CHR ''.'' # fp) =
    Some (of_nat (decimal_value (ip @ fp)) / 10 ^ length fp)"
proof -
  from assms(1) have ip: "takeWhile is_digit ip = ip" "dropWhile is_digit ip = []"
    by (simp_all add: list_all_iff)
  have tw: "takeWhile is_digit (ip @ CHR ''.'' # fp) = ip"
    using point_not_digit by (simp add: takeWhile_tail ip)
  have dw: "dropWhile is_digit (ip @ CHR ''.'' # fp) = CHR ''.'' # fp"
    using point_not_digit by (simp add: dropWhile_append3 ip)
  show ?thesis unfolding parse_decimal_def Let_def tw dw using assms(2,3) by simp
qed

lemma strip_non_numeric_numeral:
  "list_all (\<lambda>c. is_digit c \<or> c = CHR ''.'') t \<Longrightarrow> strip_non_numeric t = t"
  by (simp add: strip_non_numeric_filter list_all_iff)

lemma strip_non_numeric_minus: "strip_non_numeric (CHR ''-'' # s) = strip_non_numeric s"
  by (simp add: strip_non_numeric_def is_digit_def)

lemma coerce_minus: 
  "coerce_column f64 py_str [Obj (JStr (CHR ''-'' # s))] = coerce_column f64 py_str [Obj (JStr s)]"
  by (simp add: coerce_column_single astype_str_JStr strip_non_numeric_minus)

lemma coerce_parsed:
  assumes "parse_decimal (strip_non_numeric s) = Some q"
  shows "coerce_column f64 py_str [Obj (JStr s)] = [Num (if f64 q > 1000000000000 then 0 else f64 q)]"
  using assms
  by (simp add: coerce_column_single astype_str_JStr to_numeric_def fillna0_def
      zero_above_ceiling_def)

text \<open>
  Claim C10. The minus sign is removed with every other character that is neither a
  digit nor the decimal point, so a text with a minus sign in front is stored, in the
  column and in the table the pipeline returns, exactly as the text without it: as the
  number the parser gives for the digits and the point that remain, when that number is
  at most \<open>10\<^sup>1\<^sup>2\<close>, and as 0 when it is above. For a minus sign followed by a decimal
  numeral (digits, or digits around one point) that number is the magnitude of the
  numeral as the parser converts it, and no stored value is negative: \<open>-100\<close> is stored
  as 100 and \<open>-12.50\<close> as 12.5.
\<close>

theorem minus_sign_stripped:
  "coerce_column f64 py_str [Obj (JStr (CHR ''-'' # s))] = coerce_column f64 py_str [Obj (JStr s)]
   \<and> fetch_and_clean f64 py_str
        (Body (response_json (board_json [(''numbers'', ''Deal Value ($)'')]
           [(''Deal 1'', [(''numbers'', JStr (CHR ''-'' # s))])])))
      = fetch_and_clean f64 py_str
        (Body (response_json (board_json [(''numbers'', ''Deal Value ($)'')]
           [(''Deal 1'', [(''numbers'', JStr s)])])))
   \<and> (parse_decimal (strip_non_numeric s) = Some q \<longrightarrow>
        coerce_column f64 py_str [Obj (JStr (CHR ''-'' # s))]
          = [Num (if f64 q > 1000000000000 then 0 else f64 q)])
   \<and> (ds \<noteq> [] \<and> list_all is_digit ds \<longrightarrow>
        coerce_column f64 py_str [Obj (JStr (CHR ''-'' # ds))]
          = [Num (if f64 (of_nat (decimal_value ds)) > 1000000000000 then 0
                  else f64 (of_nat (decimal_value ds)))])
   \<and> (list_all is_digit ip \<and> list_all is_digit fp \<and> (ip \<noteq> [] \<or> fp \<noteq> []) \<longrightarrow>
        coerce_column f64 py_str [Obj (JStr (CHR ''-'' # ip @ CHR ''.'' # fp))]
          = [Num (if f64 (of_nat (decimal_value (ip @ fp)) / 10 ^ length fp) > 1000000000000 then 0
                  else f64 (of_nat (decimal_value (ip @ fp)) / 10 ^ length fp))])
   \<and> ((\<forall>x. 0 \<le> x \<longrightarrow> 0 \<le> f64 x) \<longrightarrow>
        (\<forall>c \<in> set (coerce_column f64 py_str [Obj (JStr (CHR ''-'' # s))]). stored_in_range c))
   \<and> (f64 100 = 100 \<longrightarrow> coerce_column f64 py_str [Obj (JStr ''-100'')] = [Num 100])
   \<and> (f64 (25 / 2) = 25 / 2 \<longrightarrow>
        coerce_column f64 py_str [Obj (JStr ''-12.50'')] = [Num (25 / 2)]
        \<and> fetch_and_clean f64 py_str
            (Body (response_json (board_json [(''numbers'', ''Deal Value ($)'')]
               [(''Deal 1'', [(''numbers'', JStr ''-12.50'')])])))
          = Inr (None, \<lparr>nrows = 1, cols =
              [(''Item Name'', [Obj (JStr ''Deal 1'')]), (''Deal Value'', [Num (25 / 2)])]\<rparr>))"
proof -
  have a: "coerce_column f64 py_str [Obj (JStr (CHR ''-'' # s))] = coerce_column f64 py_str [Obj (JStr s)]"
    by (rule coerce_minus)
  have b: "fetch_and_clean f64 py_str
        (Body (response_json (board_json [(''numbers'', ''Deal Value ($)'')]
           [(''Deal 1'', [(''numbers'', JStr (CHR ''-'' # s))])])))
      = fetch_and_clean f64 py_str
        (Body (response_json (board_json [(''numbers'', ''Deal Value ($)'')]
           [(''Deal 1'', [(''numbers'', JStr s)])])))"
    by (simp only: pipeline_single_cell coerce_minus)
  have c: "parse_decimal (strip_non_numeric s) = Some q \<longrightarrow>
        coerce_column f64 py_str [Obj (JStr (CHR ''-'' # s))]
          = [Num (if f64 q > 1000000000000 then 0 else f64 q)]"
    by (simp only: coerce_minus) (use coerce_parsed in blast)
  have d: "ds \<noteq> [] \<and> list_all is_digit ds \<longrightarrow>
        coerce_column f64 py_str [Obj (JStr (CHR ''-'' # ds))]
          = [Num (if f64 (of_nat (decimal_value ds)) > 1000000000000 then 0
                  else f64 (of_nat (decimal_value ds)))]"
  proof (intro impI, elim conjE)
    assume h: "ds \<noteq> []" "list_all is_digit ds"
    then have "strip_non_numeric ds = ds"
      by (intro strip_non_numeric_numeral) (simp add: list_all_iff)
    with h have "parse_decimal (strip_non_numeric ds) = Some (of_nat (decimal_value ds))"
      by (simp add: parse_decimal_digits)
    then show "coerce_column f64 py_str [Obj (JStr (CHR ''-'' # ds))]
          = [Num (if f64 (of_nat (decimal_value ds)) > 1000000000000 then 0
                  else f64 (of_nat (decimal_value ds)))]"
      by (simp only: coerce_minus) (rule coerce_parsed)
  qed
  have e: "list_all is_digit ip \<and> list_all is_digit fp \<and> (ip \<noteq> [] \<or> fp \<noteq> []) \<longrightarrow>
        coerce_column f64 py_str [Obj (JStr (CHR ''-'' # ip @ CHR ''.'' # fp))]
          = [Num (if f64 (of_nat (decimal_value (ip @ fp)) / 10 ^ length fp) > 1000000000000 then 0
                  else f64 (of_nat (decimal_value (ip @ fp)) / 10 ^ length fp))]"
  proof (intro impI, elim conjE)
    assume h: "list_all is_digit ip" "list_all is_digit fp" "ip \<noteq> [] \<or> fp \<noteq> []"
    then have "strip_non_numeric (ip @ CHR ''.'' # fp) = ip @ CHR ''.'' # fp"
      by (intro strip_non_numeric_numeral) (auto simp: list_all_iff)
    with h have "parse_decimal (strip_non_numeric (ip @ CHR ''.'' # fp))
        = Some (of_nat (decimal_value (ip @ fp)) / 10 ^ length fp)"
      by (simp add: parse_decimal_point)
    then show "coerce_column f64 py_str [Obj (JStr (CHR ''-'' # ip @ CHR ''.'' # fp))]
          = [Num (if f64 (of_nat (decimal_value (ip @ fp)) / 10 ^ length fp) > 1000000000000 then 0
                  else f64 (of_nat (decimal_value (ip @ fp)) / 10 ^ length fp))]"
      by (simp only: coerce_minus) (rule coerce_parsed)
  qed
  have f: "(\<forall>x. 0 \<le> x \<longrightarrow> 0 \<le> f64 x) \<longrightarrow>
        (\<forall>c \<in> set (coerce_column f64 py_str [Obj (JStr (CHR ''-'' # s))]). stored_in_range c)"
    using coerce_column_in_range by blast
  have "parse_decimal (strip_non_numeric ''100'') = Some 100"
    by (simp add: strip_non_numeric_def parse_decimal_def is_digit_def decimal_value_def digit_val_def)
  from coerce_parsed [OF this, of f64 py_str]
  have g: "f64 100 = 100 \<longrightarrow> coerce_column f64 py_str [Obj (JStr ''-100'')] = [Num 100]"
    using coerce_minus [of f64 py_str "''100''"] by simp
  have "parse_decimal (strip_non_numeric ''12.50'') = Some (25 / 2)"
    by (simp add: strip_non_numeric_def parse_decimal_def is_digit_def decimal_value_def digit_val_def)
  from coerce_parsed [OF this, of f64 py_str]
  have h1: "f64 (25 / 2) = 25 / 2 \<longrightarrow> coerce_column f64 py_str [Obj (JStr ''-12.50'')] = [Num (25 / 2)]"
    using coerce_minus [of f64 py_str "''12.50''"] by simp
  then have h: "f64 (25 / 2) = 25 / 2 \<longrightarrow>
        coerce_column f64 py_str [Obj (JStr ''-12.50'')] = [Num (25 / 2)]
        \<and> fetch_and_clean f64 py_str
            (Body (response_json (board_json [(''numbers'', ''Deal Value ($)'')]
               [(''Deal 1'', [(''numbers'', JStr ''-12.50'')])])))
          = Inr (None, \<lparr>nrows = 1, cols =
              [(''Item Name'', [Obj (JStr ''Deal 1'')]), (''Deal Value'', [Num (25 / 2)])]\<rparr>)"
    by (simp only: pipeline_single_cell) simp
  show ?thesis by (intro conjI a b c d e f g h)
qed

theorem minus_sign_stripped_witness:
  "coerce_column (\<lambda>q. q) (\<lambda>v. []) [Obj (JStr ''-100'')] = [Num 100]
   \<and> coerce_column (\<lambda>q. q) (\<lambda>v. []) [Obj (JStr ''-12.50'')] = [Num (25 / 2)]
   \<and> fetch_and_clean (\<lambda>q. q) (\<lambda>v. [])
        (Body (response_json (board_json [(''numbers'', ''Deal Value ($)'')]
           [(''Deal 1'', [(''numbers'', JStr ''-12.50'')])])))
      = Inr (None, \<lparr>nrows = 1, cols =
          [(''Item Name'', [Obj (JStr ''Deal 1'')]), (''Deal Value'', [Num (25 / 2)])]\<rparr>)"
proof -
  note t = minus_sign_stripped [of "\<lambda>q. q" "\<lambda>v. []" "[]" 0 "[]" "[]" "[]"]
  have 1: "(\<lambda>q::rat. q) 100 = 100" by simp
  have 2: "(\<lambda>q::rat. q) (25 / 2) = 25 / 2" by simp
  from t 1 have a: "coerce_column (\<lambda>q. q) (\<lambda>v. []) [Obj (JStr ''-100'')] = [Num 100]"
    by blast
  from t 2 have b: "coerce_column (\<lambda>q. q) (\<lambda>v. []) [Obj (JStr ''-12.50'')] = [Num (25 / 2)]
     \<and> fetch_and_clean (\<lambda>q. q) (\<lambda>v. [])
        (Body (response_json (board_json [(''numbers'', ''Deal Value ($)'')]
           [(''Deal 1'', [(''numbers'', JStr ''-12.50'')])])))
      = Inr (None, \<lparr>nrows = 1, cols =
          [(''Item Name'', [Obj (JStr ''Deal 1'')]), (''Deal Value'', [Num (25 / 2)])]\<rparr>)"
    by blast
  from a b show ?thesis by (rule conjI)
qed

text \<open>A negative number whose magnitude lies above the ceiling is stored as 0, not as
  its magnitude; a negative number in exponent notation is stored as the number its
  digits spell, not as its magnitude.\<close>

theorem negative_magnitude_counterexample:
  "coerce_column (\<lambda>q. q) (\<lambda>v. []) [Obj (JStr ''-5551234567890'')] = [Num 0]
   \<and> coerce_column (\<lambda>q. q) (\<lambda>v. []) [Obj (JStr ''-5551234567890'')] \<noteq> [Num 5551234567890]
   \<and> coerce_column (\<lambda>q. q) (\<lambda>v. []) [Obj (JStr ''-1e3'')] = [Num 13]"
proof -
  have "strip_non_numeric ''-5551234567890'' = ''5551234567890''"
    by (simp add: strip_non_numeric_def is_digit_def)
  moreover have "parse_decimal ''5551234567890'' = Some 5551234567890"
    by (simp add: parse_decimal_def is_digit_def decimal_value_def digit_val_def)
  moreover have "strip_non_numeric ''-1e3'' = ''13''"
    by (simp add: strip_non_numeric_def is_digit_def)
  moreover have "parse_decimal ''13'' = Some 13"
    by (simp add: parse_decimal_def is_digit_def decimal_value_def digit_val_def)
  ultimately show ?thesis
    by (simp add: coerce_column_single astype_str_JStr to_numeric_def fillna0_def
        zero_above_ceiling_def)
qed

end
